theory Spec2Isabelle
  imports Main "HOL-Library.Sublist" "HOL-Library.AList"
begin

text \<open>
  A shallow embedding of \<open>web_to_doc.py\<close>, the converter that crawls a documentation site
  from a seed URL and renders the pages it keeps as PDF, HTML, JSON, Markdown or DOCX. The
  class \<open>WebToPdfConverter\<close> is a record, each of its methods a function that takes the
  object and returns it with its result; the web, the parsers and the PDF library are
  parameters. The first part gives the model, method by method in the order of the source;
  the second part small sites to run it on; the third the properties proved of it.
\<close>

section \<open>Python string operations used by web_to_doc.py\<close>

text \<open>
  Strings are character lists, and a character is a code point below 256 (Latin-1). The
  operations below are the ones of Python's \<open>str\<close> that the converter calls, restricted to
  what it calls them with. \<open>lower()\<close> maps the capital letters of that range: \<open>A\<close> to
  \<open>Z\<close>, and U+00C0 to U+00DE without the multiplication sign U+00D7. \<open>strip()\<close> removes
  the white space of that range at both ends: U+0009 to U+000D, U+001C to U+001F, the
  space, U+0085 and U+00A0. \<open>split(sep)\<close> takes a non-empty separator,
  \<open>replace(old, new)\<close> a one-character \<open>old\<close>.
\<close>

definition lower_char :: "char \<Rightarrow> char" where
  "lower_char c =
     (case map_of
             (zip (''ABCDEFGHIJKLMNOPQRSTUVWXYZ'' @
                   [CHR 0xC0, CHR 0xC1, CHR 0xC2, CHR 0xC3, CHR 0xC4,
                    CHR 0xC5, CHR 0xC6, CHR 0xC7, CHR 0xC8, CHR 0xC9,
                    CHR 0xCA, CHR 0xCB, CHR 0xCC, CHR 0xCD, CHR 0xCE,
                    CHR 0xCF, CHR 0xD0, CHR 0xD1, CHR 0xD2, CHR 0xD3,
                    CHR 0xD4, CHR 0xD5, CHR 0xD6, CHR 0xD8, CHR 0xD9,
                    CHR 0xDA, CHR 0xDB, CHR 0xDC, CHR 0xDD, CHR 0xDE])
                  (''abcdefghijklmnopqrstuvwxyz'' @
                   [CHR 0xE0, CHR 0xE1, CHR 0xE2, CHR 0xE3, CHR 0xE4,
                    CHR 0xE5, CHR 0xE6, CHR 0xE7, CHR 0xE8, CHR 0xE9,
                    CHR 0xEA, CHR 0xEB, CHR 0xEC, CHR 0xED, CHR 0xEE,
                    CHR 0xEF, CHR 0xF0, CHR 0xF1, CHR 0xF2, CHR 0xF3,
                    CHR 0xF4, CHR 0xF5, CHR 0xF6, CHR 0xF8, CHR 0xF9,
                    CHR 0xFA, CHR 0xFB, CHR 0xFC, CHR 0xFD, CHR 0xFE])) c of
        Some d \<Rightarrow> d
      | None \<Rightarrow> c)"

definition lower :: "string \<Rightarrow> string" where
  "lower s = map lower_char s"

definition isspace :: "char \<Rightarrow> bool" where
  "isspace c =
     (c \<in> set [CHR 0x09, CHR 0x0A, CHR 0x0B, CHR 0x0C, CHR 0x0D, CHR 0x1C, CHR 0x1D, CHR 0x1E,
               CHR 0x1F, CHR '' '', CHR 0x85, CHR 0xA0])"

definition strip :: "string \<Rightarrow> string" where
  "strip s = rev (dropWhile isspace (rev (dropWhile isspace s)))"

definition startswith :: "string \<Rightarrow> string \<Rightarrow> bool" where
  "startswith s p = prefix p s"

definition endswith :: "string \<Rightarrow> string \<Rightarrow> bool" where
  "endswith s p = suffix p s"

text \<open>\<open>str_in k s\<close> is Python's \<open>k in s\<close>: \<open>k\<close> occurs in \<open>s\<close> as a contiguous substring.\<close>

fun str_in :: "string \<Rightarrow> string \<Rightarrow> bool" where
  "str_in k [] = (k = [])"
| "str_in k (c # cs) = (prefix k (c # cs) \<or> str_in k cs)"

text \<open>
  \<open>split sep s\<close> is \<open>s.split(sep)\<close>: the pieces between the non-overlapping occurrences of
  \<open>sep\<close>, found from the left; the result is never empty (\<open>''.split(',')\<close> is \<open>['']\<close>).
  The second argument of \<open>split_acc\<close> is the piece being read, reversed.
\<close>

function split_acc :: "string \<Rightarrow> string \<Rightarrow> string \<Rightarrow> string list" where
  "split_acc sep acc [] = [rev acc]"
| "split_acc sep acc (c # cs) =
     (if sep \<noteq> [] \<and> prefix sep (c # cs)
      then rev acc # split_acc sep [] (drop (length sep) (c # cs))
      else split_acc sep (c # acc) cs)"
  by pat_completeness auto
termination
  by (relation "measure (\<lambda>(sep, acc, s). length s)") auto

definition split :: "string \<Rightarrow> string \<Rightarrow> string list" where
  "split sep s = split_acc sep [] s"

text \<open>\<open>rsplit1_head c s\<close> is \<open>s.rsplit(c, 1)[0]\<close>: \<open>s\<close> up to its last \<open>c\<close>, or \<open>s\<close> itself.\<close>

definition rsplit1_head :: "char \<Rightarrow> string \<Rightarrow> string" where
  "rsplit1_head c s =
     (if c \<in> set s then rev (tl (dropWhile (\<lambda>x. x \<noteq> c) (rev s))) else s)"

definition replace :: "char \<Rightarrow> string \<Rightarrow> string \<Rightarrow> string" where
  "replace old new s = concat (map (\<lambda>c. if c = old then new else [c]) s)"

text \<open>Truthiness of an optional string: \<open>None\<close> and \<open>''\<close> are false.\<close>

fun truthy :: "string option \<Rightarrow> bool" where
  "truthy None = False"
| "truthy (Some s) = (s \<noteq> [])"

text \<open>\<open>str_opt\<close> is how an f-string prints a value that may be \<open>None\<close>.\<close>

fun str_opt :: "string option \<Rightarrow> string" where
  "str_opt None = ''None''"
| "str_opt (Some s) = s"

definition nl :: string where
  "nl = [CHR 0x0A]"

definition dquote :: string where
  "dquote = [CHR 0x22]"


section \<open>The parsed document\<close>

text \<open>
  The markup parser is an external library; its result, a BeautifulSoup tree, is the input of
  the converter's page logic. A node is a string or a tag with its name, its \<open>class\<close> values
  (a list in BeautifulSoup), its other attributes and its children. The soup itself is the
  list of the top-level nodes.
\<close>

datatype node =
    NavigableString string
  | Tag string "string list" "(string \<times> string) list" "node list"

type_synonym soup = "node list"

text \<open>What a selector can see of a tag: its name and its classes.\<close>

type_synonym tag_info = "string \<times> string list"

fun node_name :: "node \<Rightarrow> string" where
  "node_name (NavigableString s) = []"
| "node_name (Tag n cl at ch) = n"

fun node_classes :: "node \<Rightarrow> string list" where
  "node_classes (NavigableString s) = []"
| "node_classes (Tag n cl at ch) = cl"

fun node_attrs :: "node \<Rightarrow> (string \<times> string) list" where
  "node_attrs (NavigableString s) = []"
| "node_attrs (Tag n cl at ch) = at"

fun node_children :: "node \<Rightarrow> node list" where
  "node_children (NavigableString s) = []"
| "node_children (Tag n cl at ch) = ch"

definition node_get :: "node \<Rightarrow> string \<Rightarrow> string option" where
  "node_get e k = map_of (node_attrs e) k"

text \<open>\<open>get_text\<close>: all the strings below a node, concatenated in document order.\<close>

fun get_text :: "node \<Rightarrow> string" where
  "get_text (NavigableString s) = s"
| "get_text (Tag n cl at ch) = concat (map get_text ch)"

definition soup_get_text :: "soup \<Rightarrow> string" where
  "soup_get_text sp = concat (map get_text sp)"

text \<open>
  \<open>tag_string\<close> is BeautifulSoup's \<open>.string\<close>: the string of a tag with exactly one
  child, followed through single-child tags, and \<open>None\<close> otherwise.
\<close>

fun tag_string :: "node \<Rightarrow> string option" where
  "tag_string (NavigableString s) = Some s"
| "tag_string (Tag n cl at []) = None"
| "tag_string (Tag n cl at [c]) = tag_string c"
| "tag_string (Tag n cl at (c # d # ch)) = None"

text \<open>
  \<open>walk anc e\<close>: the tags at and below \<open>e\<close> in document order, each with its ancestors
  (nearest first), \<open>anc\<close> being the ancestors of \<open>e\<close>.
\<close>

fun walk :: "tag_info list \<Rightarrow> node \<Rightarrow> (node \<times> tag_info list) list" where
  "walk anc (NavigableString s) = []"
| "walk anc (Tag n cl at ch) = (Tag n cl at ch, anc) # concat (map (walk ((n, cl) # anc)) ch)"

definition soup_tags :: "soup \<Rightarrow> (node \<times> tag_info list) list" where
  "soup_tags sp = concat (map (walk []) sp)"

text \<open>\<open>find_all\<close> of a tag looks below the tag, not at the tag itself.\<close>

definition below :: "node \<Rightarrow> (node \<times> tag_info list) list" where
  "below e = concat (map (walk [(node_name e, node_classes e)]) (node_children e))"

definition find_all :: "string list \<Rightarrow> node \<Rightarrow> (node \<times> tag_info list) list" where
  "find_all names e = filter (\<lambda>(d, anc). node_name d \<in> set names) (below e)"

definition soup_find_all :: "string \<Rightarrow> soup \<Rightarrow> node list" where
  "soup_find_all name sp = filter (\<lambda>d. node_name d = name) (map fst (soup_tags sp))"

text \<open>\<open>soup.title\<close>, \<open>soup.body\<close>, \<open>soup.find(name)\<close>: the first tag of that name.\<close>

definition soup_find :: "string \<Rightarrow> soup \<Rightarrow> node option" where
  "soup_find name sp = (case soup_find_all name sp of [] \<Rightarrow> None | d # ds \<Rightarrow> Some d)"

definition node_find :: "string \<Rightarrow> node \<Rightarrow> node option" where
  "node_find name e =
     (case find_all [name] e of [] \<Rightarrow> None | (d, anc) # ds \<Rightarrow> Some d)"

subsection \<open>The CSS selectors the converter uses\<close>

text \<open>
  The selectors of the source are of three shapes: a tag name (\<open>nav\<close>), classes
  (\<open>.navbar\<close>, \<open>.nav-item.active\<close>), and two of these joined by the descendant combinator
  (\<open>.sidebar .active\<close>, \<open>header .category\<close>). A selector is the chain of its compound
  selectors, outermost first.
\<close>

datatype simple_sel = ByTag string | ByClass string

type_synonym compound_sel = "simple_sel list"

type_synonym selector = "compound_sel list"

fun simple_ok :: "tag_info \<Rightarrow> simple_sel \<Rightarrow> bool" where
  "simple_ok (n, cl) (ByTag t) = (n = t)"
| "simple_ok (n, cl) (ByClass c) = (c \<in> set cl)"

definition compound_ok :: "compound_sel \<Rightarrow> tag_info \<Rightarrow> bool" where
  "compound_ok c i = list_all (simple_ok i) c"

text \<open>
  \<open>anc_match cs anc\<close>: the compounds \<open>cs\<close> (innermost first) are matched, in this order, by
  ancestors further and further out.
\<close>

fun anc_match :: "compound_sel list \<Rightarrow> tag_info list \<Rightarrow> bool" where
  "anc_match [] anc = True"
| "anc_match (c # cs) [] = False"
| "anc_match (c # cs) (a # anc) =
     (if compound_ok c a then anc_match cs anc else anc_match (c # cs) anc)"

definition sel_match :: "selector \<Rightarrow> tag_info \<Rightarrow> tag_info list \<Rightarrow> bool" where
  "sel_match sel i anc =
     (case rev sel of [] \<Rightarrow> False | c # cs \<Rightarrow> compound_ok c i \<and> anc_match cs anc)"

definition select :: "selector \<Rightarrow> soup \<Rightarrow> node list" where
  "select sel sp =
     map fst (filter (\<lambda>(d, anc). sel_match sel (node_name d, node_classes d) anc) (soup_tags sp))"

definition select_one :: "selector \<Rightarrow> soup \<Rightarrow> node option" where
  "select_one sel sp = (case select sel sp of [] \<Rightarrow> None | d # ds \<Rightarrow> Some d)"

text \<open>
  \<open>for element in soup.select(selector): element.decompose()\<close> takes every selected tag,
  with all below it, out of the tree. \<open>remove_sel\<close> does it for one node (giving no node
  or the node with its children cleaned), \<open>decompose_all\<close> for the soup.
\<close>

fun remove_sel :: "selector \<Rightarrow> tag_info list \<Rightarrow> node \<Rightarrow> node list" where
  "remove_sel sel anc (NavigableString s) = [NavigableString s]"
| "remove_sel sel anc (Tag n cl at ch) =
     (if sel_match sel (n, cl) anc then []
      else [Tag n cl at (concat (map (remove_sel sel ((n, cl) # anc)) ch))])"

definition decompose_all :: "selector \<Rightarrow> soup \<Rightarrow> soup" where
  "decompose_all sel sp = concat (map (remove_sel sel []) sp)"


section \<open>The libraries and the network\<close>

text \<open>
  What the converter calls and does not define is a parameter of the model: urllib's
  \<open>urlparse\<close> (of whose result the source reads \<open>netloc\<close> and \<open>path\<close>) and \<open>urljoin\<close>,
  the answers of \<open>requests.get\<close>, the parser, the serialiser \<open>str(tag)\<close>, and whether
  reportlab accepts a paragraph's markup or an image file, the depth of calls the interpreter
  allows, the line the user types in interactive mode, whether reportlab builds the
  document, and whether python-docx is installed. Every theorem holds for all
  libraries; \<open>urlparse\<close> and \<open>urljoin\<close> are taken as total. One parser stands for
  both uses of BeautifulSoup, on pages and on sitemaps: it is a function of the text it is
  given.
\<close>

datatype pstyle = TitleStyle | URLStyle | HeaderStyle | TextStyle

text \<open>
  The flowables of the PDF. An image file \<open>img_N.png\<close> of the temporary directory is
  named by its number \<open>N\<close>; the scaling of an image to the maximal width is not modelled.
\<close>

datatype flowable =
    Paragraph string pstyle
  | Preformatted string
  | ImageF nat
  | Spacer
  | PageBreak
  | TableOfContents

record parse_result =
  netloc :: string
  path :: string

record response =
  status_code :: nat
  content_type :: string
  body :: string

text \<open>\<open>raise_for_status\<close> raises on the codes from 400 to 599.\<close>

definition status_ok :: "response \<Rightarrow> bool" where
  "status_ok r = (\<not> (400 \<le> status_code r \<and> status_code r < 600))"

record library =
  urlparse :: "string \<Rightarrow> parse_result"
  urljoin :: "string \<Rightarrow> string \<Rightarrow> string"
  requests_get :: "string \<Rightarrow> response option"
  BeautifulSoup :: "string \<Rightarrow> soup"
  str_tag :: "node \<Rightarrow> string"
  Paragraph_ok :: "string \<Rightarrow> bool"
  image_decodes :: "string \<Rightarrow> bool"
  Image_ok :: "nat \<Rightarrow> bool"
  recursion_limit :: nat
  user_input :: string
  doc_build_ok :: "flowable list \<Rightarrow> bool"
  docx_installed :: bool

section \<open>The converter\<close>

text \<open>
  \<open>self.options\<close>; \<open>delay\<close> and \<open>timeout\<close> are left out with the clock they set.
\<close>

record options =
  max_pages :: int
  max_depth :: "int option"
  format :: string
  use_sitemap :: bool
  sitemap_url :: "string option"
  categories :: "string option"
  contains :: "string option"
  not_contains :: "string option"
  create_toc :: bool
  interactive :: bool

definition default_options :: options where
  "default_options =
     \<lparr>max_pages = 250, max_depth = None, format = ''pdf'', use_sitemap = False,
      sitemap_url = None, categories = None, contains = None, not_contains = None,
      create_toc = False, interactive = False\<rparr>"

text \<open>The entry of a page in \<open>self.contents\<close>.\<close>

record page_content =
  title :: "string option"
  html :: string
  text' :: string
  url :: string

text \<open>
  The object's fields. \<open>visited_urls\<close> is a Python set: it is kept as the list of its
  elements in the order they were added, and \<open>len\<close> is the length (the only \<open>add\<close> of the
  source is guarded by a membership test). \<open>contents\<close> is a dictionary read in insertion
  order, kept as an association list; \<open>url_depth\<close> is a dictionary read by key only.
  \<open>requests_log\<close> is not a field of the source: it records the URLs \<open>download_page\<close> was
  called with, in order, so that theorems can speak of what was fetched.
\<close>

record converter =
  base_url :: string
  domain :: string
  base_path :: string
  image_counter :: nat
  pdf_elements :: "flowable list"
  visited_urls :: "string list"
  to_visit :: "string list"
  contents :: "(string \<times> page_content) list"
  options :: options
  url_depth :: "string \<rightharpoonup> int"
  requests_log :: "string list"

text \<open>\<open>__init__\<close>; the caller's options come already merged over the defaults.\<close>

definition init :: "library \<Rightarrow> string \<Rightarrow> options \<Rightarrow> converter" where
  "init L b opts =
     \<lparr>base_url = b,
      domain = netloc (urlparse L b),
      base_path = rsplit1_head (CHR ''/'') (path (urlparse L b)) @ ''/'',
      image_counter = 0,
      pdf_elements = [],
      visited_urls = [],
      to_visit = [b],
      contents = [],
      options = opts,
      url_depth = [b \<mapsto> 0],
      requests_log = []\<rparr>"

definition download_page :: "library \<Rightarrow> converter \<Rightarrow> string \<Rightarrow> string option \<times> converter" where
  "download_page L self u =
     (let self1 = self\<lparr>requests_log := requests_log self @ [u]\<rparr> in
      case requests_get L u of
        None \<Rightarrow> (None, self1)
      | Some r \<Rightarrow>
          if \<not> status_ok r then (None, self1)
          else
            let ct = lower (content_type r) in
            if \<not> str_in ''text/html'' ct \<and> \<not> str_in ''application/xhtml+xml'' ct
            then (None, self1)
            else (Some (body r), self1))"

definition non_html_extensions :: "string list" where
  "non_html_extensions =
     [''.pdf'', ''.png'', ''.jpg'', ''.jpeg'', ''.gif'', ''.svg'', ''.zip'', ''.exe'',
      ''.json'', ''.xml'', ''.js'', ''.css'']"

text \<open>
  \<open>is_valid_url\<close> returns its answer and the object, whose \<open>url_depth\<close> it may have
  written. The depth is written under the URL with its fragment cut off.
\<close>

definition is_valid_url ::
  "library \<Rightarrow> converter \<Rightarrow> string \<Rightarrow> string option \<Rightarrow> bool \<times> converter" where
  "is_valid_url L self u from_url =
     (let parsed = urlparse L u in
      if netloc parsed \<noteq> [] \<and> netloc parsed \<noteq> domain self then (False, self)
      else if \<not> startswith (path parsed) (base_path self) then (False, self)
      else
        let u1 = (if str_in ''#'' u then hd (split ''#'' u) else u) in
        if list_ex (endswith (path parsed)) non_html_extensions then (False, self)
        else
          (case max_depth (options self) of
             None \<Rightarrow> (True, self)
           | Some md \<Rightarrow>
               if truthy from_url then
                 let parent_depth =
                       (case url_depth self (the from_url) of None \<Rightarrow> 0 | Some d \<Rightarrow> d)
                 in
                   if parent_depth \<ge> md then (False, self)
                   else (True, self\<lparr>url_depth := (url_depth self)(u1 \<mapsto> parent_depth + 1)\<rparr>)
               else (True, self)))"

text \<open>
  \<open>extract_links\<close>: one step per \<open>a\<close> tag with an \<open>href\<close>, in document order. The
  validity test runs first, so it writes the depth also of a link that is then dropped as
  visited.
\<close>

definition link_step ::
  "library \<Rightarrow> string \<Rightarrow> node \<Rightarrow> string list \<times> converter \<Rightarrow> string list \<times> converter" where
  "link_step L current_url a_tag acc =
     (let href = (case node_get a_tag ''href'' of Some h \<Rightarrow> h | None \<Rightarrow> []);
          absolute_url = urljoin L current_url href;
          (ok, self1) = is_valid_url L (snd acc) absolute_url (Some current_url)
      in if ok \<and> absolute_url \<notin> set (visited_urls self1)
         then (fst acc @ [absolute_url], self1)
         else (fst acc, self1))"

definition a_tags :: "soup \<Rightarrow> node list" where
  "a_tags sp = filter (\<lambda>d. node_get d ''href'' \<noteq> None) (soup_find_all ''a'' sp)"

definition extract_links ::
  "library \<Rightarrow> converter \<Rightarrow> soup \<Rightarrow> string \<Rightarrow> string list \<times> converter" where
  "extract_links L self sp current_url =
     fold (link_step L current_url) (a_tags sp) ([], self)"

text \<open>The comma-separated keywords of an option, as \<open>check_content_filters\<close> reads them.\<close>

definition filter_keywords :: "string \<Rightarrow> string list" where
  "filter_keywords s = map (\<lambda>k. strip (lower k)) (split '','' s)"

definition check_content_filters :: "converter \<Rightarrow> soup \<Rightarrow> string \<Rightarrow> bool" where
  "check_content_filters self sp u =
     (if \<not> truthy (contains (options self)) \<and> \<not> truthy (not_contains (options self)) then True
      else
        let page_text = lower (soup_get_text sp) in
        if truthy (contains (options self)) \<and>
           \<not> list_ex (\<lambda>keyword. str_in keyword page_text)
                (filter_keywords (the (contains (options self))))
        then False
        else if truthy (not_contains (options self)) \<and>
           list_ex (\<lambda>keyword. str_in keyword page_text)
             (filter_keywords (the (not_contains (options self))))
        then False
        else True)"

definition category_selectors :: "selector list" where
  "category_selectors =
     [[[ByClass ''breadcrumbs'']],
      [[ByClass ''nav-item'', ByClass ''active'']],
      [[ByClass ''sidebar''], [ByClass ''active'']],
      [[ByTag ''header''], [ByClass ''category'']]]"

fun first_category :: "selector list \<Rightarrow> soup \<Rightarrow> string option" where
  "first_category [] sp = None"
| "first_category (selector # rest) sp =
     (case select_one selector sp of
        Some category_elem \<Rightarrow> Some (strip (get_text category_elem))
      | None \<Rightarrow> first_category rest sp)"

definition get_category :: "soup \<Rightarrow> string option" where
  "get_category sp = first_category category_selectors sp"


subsection \<open>Processing one page\<close>

definition category_check :: "converter \<Rightarrow> soup \<Rightarrow> bool" where
  "category_check self sp =
     (if truthy (categories (options self)) then
        (case get_category sp of
           None \<Rightarrow> True
         | Some page_category \<Rightarrow>
             if page_category \<noteq> [] then
               list_ex (\<lambda>cat. str_in (lower cat) (lower page_category))
                 (map strip (split '','' (the (categories (options self)))))
             else True)
      else True)"

definition chrome_selectors :: "selector list" where
  "chrome_selectors =
     [[[ByClass ''navbar'']], [[ByClass ''footer'']], [[ByClass ''sidebar'']], [[ByTag ''nav'']],
      [[ByClass ''cookie-banner'']], [[ByClass ''announcement'']], [[ByClass ''header'']]]"

definition strip_chrome :: "soup \<Rightarrow> soup" where
  "strip_chrome sp = fold decompose_all chrome_selectors sp"

definition find_main_content :: "soup \<Rightarrow> node option" where
  "find_main_content sp =
     (case select_one [[ByTag ''main'']] sp of
        Some m \<Rightarrow> Some m
      | None \<Rightarrow>
          (case select_one [[ByTag ''article'']] sp of
             Some m \<Rightarrow> Some m
           | None \<Rightarrow>
               (case select_one [[ByClass ''content'']] sp of
                  Some m \<Rightarrow> Some m
                | None \<Rightarrow> soup_find ''body'' sp)))"

definition page_title :: "soup \<Rightarrow> string \<Rightarrow> string option" where
  "page_title sp u =
     (case soup_find ''title'' sp of
        Some t \<Rightarrow> tag_string t
      | None \<Rightarrow> Some (last (split ''/'' u)))"

definition download_image ::
  "library \<Rightarrow> converter \<Rightarrow> string \<Rightarrow> string \<Rightarrow> nat option \<times> converter" where
  "download_image L self img_url b =
     (let absolute_url = urljoin L b img_url in
      case requests_get L absolute_url of
        None \<Rightarrow> (None, self)
      | Some r \<Rightarrow>
          if \<not> status_ok r then (None, self)
          else
            let is_svg = (endswith (lower img_url) ''.svg'' \<or>
                          str_in ''image/svg+xml'' (lower (content_type r)));
                img_path = image_counter self;
                self1 = self\<lparr>image_counter := image_counter self + 1\<rparr>
            in if is_svg then (Some img_path, self1)
               else if image_decodes L absolute_url then (Some img_path, self1)
               else (None, self1))"

text \<open>
  The flowables of one element of the main content; \<open>None\<close> is an exception of the
  \<open>Paragraph\<close> constructor, which leaves the loop and the \<open>try\<close> block.
\<close>

definition parent_name :: "tag_info list \<Rightarrow> string" where
  "parent_name anc = (case anc of [] \<Rightarrow> ''[document]'' | (n, cl) # rest \<Rightarrow> n)"

definition mk_Paragraph :: "library \<Rightarrow> string \<Rightarrow> pstyle \<Rightarrow> flowable option" where
  "mk_Paragraph L s st = (if Paragraph_ok L s then Some (Paragraph s st) else None)"

definition block_of ::
  "library \<Rightarrow> converter \<Rightarrow> string \<Rightarrow> node \<times> tag_info list \<Rightarrow> flowable list option \<times> converter"
  where
  "block_of L self u ea =
     (let element = fst ea; name = node_name element; s = strip (get_text element) in
      if name \<in> set [''h1'', ''h2'', ''h3'', ''h4''] then
        (if s \<noteq> [] then map_option (\<lambda>f. [f]) (mk_Paragraph L s HeaderStyle) else Some [], self)
      else if name = ''p'' then
        (if s \<noteq> [] then map_option (\<lambda>f. [f]) (mk_Paragraph L s TextStyle) else Some [], self)
      else if name = ''pre'' \<or> (name = ''div'' \<and> ''code'' \<in> set (node_classes element)) then
        (if s \<noteq> [] then Some [Preformatted s] else Some [], self)
      else if name = ''code'' \<and> parent_name (snd ea) \<noteq> ''pre'' then
        (if s \<noteq> [] then Some [Preformatted s] else Some [], self)
      else if name = ''img'' \<and> truthy (node_get element ''src'') then
        (case download_image L self (the (node_get element ''src'')) u of
           (Some img_path, self1) \<Rightarrow>
             (if Image_ok L img_path then Some [ImageF img_path, Spacer] else Some [], self1)
         | (None, self1) \<Rightarrow> (Some [], self1))
      else (Some [], self))"

fun extract_blocks ::
  "library \<Rightarrow> converter \<Rightarrow> string \<Rightarrow> (node \<times> tag_info list) list
     \<Rightarrow> flowable list option \<times> converter" where
  "extract_blocks L self u [] = (Some [], self)"
| "extract_blocks L self u (ea # rest) =
     (case block_of L self u ea of
        (None, self1) \<Rightarrow> (None, self1)
      | (Some fs, self1) \<Rightarrow>
          (case extract_blocks L self1 u rest of
             (None, self2) \<Rightarrow> (None, self2)
           | (Some gs, self2) \<Rightarrow> (Some (fs @ gs), self2)))"

definition block_tags :: "string list" where
  "block_tags = [''h1'', ''h2'', ''h3'', ''h4'', ''p'', ''pre'', ''code'', ''img'', ''div'']"

text \<open>Appending the new links that are neither visited nor queued.\<close>

definition enqueue_link :: "string \<Rightarrow> converter \<Rightarrow> converter" where
  "enqueue_link link self =
     (if link \<notin> set (visited_urls self) \<and> link \<notin> set (to_visit self)
      then self\<lparr>to_visit := to_visit self @ [link]\<rparr> else self)"

definition enqueue_links :: "string list \<Rightarrow> converter \<Rightarrow> converter" where
  "enqueue_links new_links self = fold enqueue_link new_links self"

text \<open>Storing the page for the formats other than PDF.\<close>

definition store_contents :: "library \<Rightarrow> converter \<Rightarrow> string \<Rightarrow> soup \<Rightarrow> node \<Rightarrow> converter" where
  "store_contents L self u sp main_content =
     self\<lparr>contents :=
       AList.update u
         \<lparr>title = page_title sp u, html = str_tag L main_content,
          text' = get_text main_content, url = u\<rparr>
         (contents self)\<rparr>"

text \<open>The links for further visits, if not in sitemap mode.\<close>

definition discover_links :: "library \<Rightarrow> converter \<Rightarrow> soup \<Rightarrow> string \<Rightarrow> converter" where
  "discover_links L self sp u =
     (if \<not> use_sitemap (options self) then
        (case extract_links L self sp u of
           (new_links, self1) \<Rightarrow> enqueue_links new_links self1)
      else self)"

text \<open>
  The \<open>try\<close> block of \<open>process_page\<close>, from the parsed page on. An exception inside it
  returns the empty list and keeps what the object holds by then. The tree \<open>sp\<close> that the
  main content, the title and the links are read from is the one the chrome was removed
  from: the source removes it in place.
\<close>

definition process_soup ::
  "library \<Rightarrow> converter \<Rightarrow> string \<Rightarrow> soup \<Rightarrow> flowable list \<times> converter" where
  "process_soup L self u sp0 =
     (if \<not> check_content_filters self sp0 u then ([], self)
      else if \<not> category_check self sp0 then ([], self)
      else
        let sp = strip_chrome sp0 in
        case find_main_content sp of
          None \<Rightarrow> ([], self)
        | Some main_content \<Rightarrow>
            let self1 = store_contents L self u sp main_content;
                title_markup = ''<b>'' @ str_opt (page_title sp u) @ ''</b>''
            in
              (case (mk_Paragraph L title_markup TitleStyle,
                     mk_Paragraph L (''Source: '' @ u) URLStyle) of
                 (Some t, Some s) \<Rightarrow>
                   let self2 = discover_links L self1 sp u in
                     (case extract_blocks L self2 u (find_all block_tags main_content) of
                        (Some els, self3) \<Rightarrow> ([t, s] @ els @ [PageBreak], self3)
                      | (None, self3) \<Rightarrow> ([], self3))
               | _ \<Rightarrow> ([], self1)))"

definition process_page ::
  "library \<Rightarrow> converter \<Rightarrow> string \<Rightarrow> flowable list \<times> converter" where
  "process_page L self u =
     (case download_page L self u of
        (None, self1) \<Rightarrow> ([], self1)
      | (Some html_content, self1) \<Rightarrow>
          if html_content = [] then ([], self1)
          else process_soup L self1 u (BeautifulSoup L html_content))"


subsection \<open>What a page leaves untouched\<close>

text \<open>
  The main loop ends because processing a page never touches \<open>visited_urls\<close> or the
  options. \<open>frame s t\<close> lists the fields that no step of \<open>process_page\<close> writes.
\<close>

definition frame :: "converter \<Rightarrow> converter \<Rightarrow> bool" where
  "frame s t =
     (visited_urls t = visited_urls s \<and> options t = options s \<and> base_url t = base_url s \<and>
      domain t = domain s \<and> base_path t = base_path s \<and> pdf_elements t = pdf_elements s)"

definition same_but_depth :: "converter \<Rightarrow> converter \<Rightarrow> bool" where
  "same_but_depth s t = (t = s\<lparr>url_depth := url_depth t\<rparr>)"

definition same_but_counter :: "converter \<Rightarrow> converter \<Rightarrow> bool" where
  "same_but_counter s t = (t = s\<lparr>image_counter := image_counter t\<rparr>)"

lemma same_but_depth_refl: "same_but_depth s s"
  by (simp add: same_but_depth_def)

lemma same_but_depth_trans: "same_but_depth s t \<Longrightarrow> same_but_depth t r \<Longrightarrow> same_but_depth s r"
  unfolding same_but_depth_def
  by (cases s, cases t, cases r) simp

lemma same_but_counter_refl: "same_but_counter s s"
  by (simp add: same_but_counter_def)

lemma same_but_counter_trans:
  "same_but_counter s t \<Longrightarrow> same_but_counter t r \<Longrightarrow> same_but_counter s r"
  unfolding same_but_counter_def
  by (cases s, cases t, cases r) simp

lemma is_valid_url_same: "same_but_depth self (snd (is_valid_url L self u f))"
  by (simp add: same_but_depth_def is_valid_url_def Let_def split: option.splits)

lemma link_step_same: "same_but_depth (snd acc) (snd (link_step L cu a acc))"
proof -
  let ?h = "urljoin L cu (case node_get a ''href'' of None \<Rightarrow> [] | Some h \<Rightarrow> h)"
  obtain ok s1 where e: "is_valid_url L (snd acc) ?h (Some cu) = (ok, s1)"
    by (cases "is_valid_url L (snd acc) ?h (Some cu)")
  from is_valid_url_same[of "snd acc" L ?h "Some cu"] e have "same_but_depth (snd acc) s1" by simp
  with e show ?thesis by (simp add: link_step_def Let_def)
qed

lemma fold_link_step_same: "same_but_depth (snd acc) (snd (fold (link_step L cu) xs acc))"
proof (induction xs arbitrary: acc)
  case Nil
  show ?case by (simp add: same_but_depth_refl)
next
  case (Cons a xs)
  show ?case
    using same_but_depth_trans[OF link_step_same[of acc L cu a] Cons.IH[of "link_step L cu a acc"]]
    by simp
qed

lemma extract_links_same: "same_but_depth self (snd (extract_links L self sp cu))"
  using fold_link_step_same[of "([], self)" L cu "a_tags sp"] by (simp add: extract_links_def)

lemma download_image_same: "same_but_counter self (snd (download_image L self i b))"
  by (simp add: same_but_counter_def download_image_def Let_def split: option.splits)

lemma block_of_same: "same_but_counter self (snd (block_of L self u ea))"
proof -
  obtain r s1 where e: "download_image L self (the (node_get (fst ea) ''src'')) u = (r, s1)"
    by (cases "download_image L self (the (node_get (fst ea) ''src'')) u")
  from download_image_same[of self L "the (node_get (fst ea) ''src'')" u] e
  have "same_but_counter self s1" by simp
  with e show ?thesis
    by (simp add: block_of_def Let_def same_but_counter_refl split: option.splits)
qed

lemma extract_blocks_same: "same_but_counter self (snd (extract_blocks L self u eas))"
proof (induction eas arbitrary: self)
  case Nil
  show ?case by (simp add: same_but_counter_refl)
next
  case (Cons ea eas)
  obtain r s1 where e: "block_of L self u ea = (r, s1)" by (cases "block_of L self u ea")
  with block_of_same[of self L u ea] have a: "same_but_counter self s1" by simp
  show ?case
  proof (cases r)
    case None
    with e a show ?thesis by simp
  next
    case (Some fs)
    obtain q s2 where f: "extract_blocks L s1 u eas = (q, s2)"
      by (cases "extract_blocks L s1 u eas")
    with Cons.IH[of s1] have "same_but_counter s1 s2" by simp
    with a have "same_but_counter self s2" by (rule same_but_counter_trans)
    with e f Some show ?thesis by (simp split: option.splits)
  qed
qed

lemma enqueue_link_fields:
  "enqueue_link l s = s\<lparr>to_visit := to_visit (enqueue_link l s)\<rparr>"
  by (simp add: enqueue_link_def)

lemma enqueue_links_fields:
  "enqueue_links ls s = s\<lparr>to_visit := to_visit (enqueue_links ls s)\<rparr>"
  unfolding enqueue_links_def
proof (induction ls arbitrary: s)
  case Nil
  show ?case by simp
next
  case (Cons l ls)
  have "fold enqueue_link ls (enqueue_link l s) =
        (enqueue_link l s)\<lparr>to_visit := to_visit (fold enqueue_link ls (enqueue_link l s))\<rparr>"
    by (rule Cons.IH)
  also have "\<dots> = s\<lparr>to_visit := to_visit (fold enqueue_link ls (enqueue_link l s))\<rparr>"
    by (simp add: enqueue_link_def)
  finally show ?case by simp
qed

lemma frame_refl: "frame s s"
  by (simp add: frame_def)

lemma frame_trans: "frame s t \<Longrightarrow> frame t r \<Longrightarrow> frame s r"
  by (simp add: frame_def)

lemma same_but_depth_frame: "same_but_depth s t \<Longrightarrow> frame s t"
  unfolding same_but_depth_def frame_def by (cases s, cases t) simp

lemma same_but_counter_frame: "same_but_counter s t \<Longrightarrow> frame s t"
  unfolding same_but_counter_def frame_def by (cases s, cases t) simp

lemma enqueue_links_frame: "frame s (enqueue_links ls s)"
  using enqueue_links_fields[of ls s] unfolding frame_def
  by (cases s, cases "enqueue_links ls s") simp

lemma store_contents_frame: "frame s (store_contents L s u sp m)"
  by (simp add: frame_def store_contents_def)

lemma discover_links_frame: "frame s (discover_links L s sp u)"
proof (cases "use_sitemap (options s)")
  case True
  then show ?thesis by (simp add: discover_links_def frame_refl)
next
  case False
  obtain ls s1 where e: "extract_links L s sp u = (ls, s1)" by (cases "extract_links L s sp u")
  with extract_links_same[of s L sp u] have "frame s s1" by (simp add: same_but_depth_frame)
  moreover have "frame s1 (enqueue_links ls s1)" by (rule enqueue_links_frame)
  ultimately have "frame s (enqueue_links ls s1)" by (rule frame_trans)
  with e False show ?thesis by (simp add: discover_links_def)
qed

lemma extract_blocks_frame: "frame s (snd (extract_blocks L s u eas))"
  by (rule same_but_counter_frame) (rule extract_blocks_same)

text \<open>The three states \<open>process_soup\<close> can end in.\<close>

lemma process_soup_state:
  "snd (process_soup L s u sp0) = s \<or>
   (\<exists>m. find_main_content (strip_chrome sp0) = Some m \<and>
      (snd (process_soup L s u sp0) = store_contents L s u (strip_chrome sp0) m \<or>
       snd (process_soup L s u sp0) =
         snd (extract_blocks L
               (discover_links L (store_contents L s u (strip_chrome sp0) m) (strip_chrome sp0) u)
               u (find_all block_tags m))))"
proof (cases "find_main_content (strip_chrome sp0)")
  case None
  then show ?thesis by (simp add: process_soup_def)
next
  case (Some m)
  let ?s2 = "discover_links L (store_contents L s u (strip_chrome sp0) m) (strip_chrome sp0) u"
  obtain r s3 where e: "extract_blocks L ?s2 u (find_all block_tags m) = (r, s3)"
    by (cases "extract_blocks L ?s2 u (find_all block_tags m)")
  with Some show ?thesis
    by (simp add: process_soup_def Let_def split: option.splits)
qed

lemma process_soup_frame: "frame s (snd (process_soup L s u sp0))"
proof -
  have a: "\<And>m sp. frame s (discover_links L (store_contents L s u sp m) sp u)"
    by (rule frame_trans[OF store_contents_frame discover_links_frame])
  have b: "\<And>m sp eas. frame s (snd (extract_blocks L (discover_links L (store_contents L s u sp m) sp u) u eas))"
    by (rule frame_trans[OF a extract_blocks_frame])
  from process_soup_state[of L s u sp0] show ?thesis
    by (auto simp: frame_refl store_contents_frame b)
qed

lemma download_page_state:
  "snd (download_page L s u) = s\<lparr>requests_log := requests_log s @ [u]\<rparr>"
  by (simp add: download_page_def Let_def split: option.splits)

lemma process_page_frame: "frame s (snd (process_page L s u))"
proof -
  obtain r s1 where e: "download_page L s u = (r, s1)" by (cases "download_page L s u")
  with download_page_state[of L s u] have s1: "s1 = s\<lparr>requests_log := requests_log s @ [u]\<rparr>"
    by simp
  then have "frame s s1" by (simp add: frame_def)
  from frame_trans[OF this process_soup_frame] e show ?thesis
    by (auto simp: process_page_def \<open>frame s s1\<close> split: option.splits)
qed


subsection \<open>The main loop\<close>

text \<open>
  \<open>while self.to_visit and len(self.visited_urls) < self.options['max_pages']\<close>. One turn
  of the loop takes the head of the queue; a URL that is already visited is dropped
  (\<open>continue\<close>), any other is marked visited before it is processed.
\<close>

definition loop_cond :: "converter \<Rightarrow> bool" where
  "loop_cond self =
     (to_visit self \<noteq> [] \<and> int (length (visited_urls self)) < max_pages (options self))"

definition loop_body :: "library \<Rightarrow> converter \<Rightarrow> converter" where
  "loop_body L self =
     (let current_url = hd (to_visit self);
          self1 = self\<lparr>to_visit := tl (to_visit self)\<rparr>
      in
        if current_url \<in> set (visited_urls self1) then self1
        else
          let self2 = self1\<lparr>visited_urls := visited_urls self1 @ [current_url]\<rparr> in
          case process_page L self2 current_url of
            (elements, self3) \<Rightarrow>
              if elements \<noteq> [] then self3\<lparr>pdf_elements := pdf_elements self3 @ elements\<rparr>
              else self3)"

lemma loop_body_options: "options (loop_body L s) = options s"
proof -
  let ?s2 = "s\<lparr>to_visit := tl (to_visit s), visited_urls := visited_urls s @ [hd (to_visit s)]\<rparr>"
  obtain els s3 where e: "process_page L ?s2 (hd (to_visit s)) = (els, s3)"
    by (cases "process_page L ?s2 (hd (to_visit s))")
  with process_page_frame[of ?s2 L "hd (to_visit s)"] have "options s3 = options s"
    by (simp add: frame_def)
  with e show ?thesis by (simp add: loop_body_def Let_def)
qed

lemma loop_body_visited:
  "visited_urls (loop_body L s) =
     (if hd (to_visit s) \<in> set (visited_urls s) then visited_urls s
      else visited_urls s @ [hd (to_visit s)])"
proof -
  let ?s2 = "s\<lparr>to_visit := tl (to_visit s), visited_urls := visited_urls s @ [hd (to_visit s)]\<rparr>"
  obtain els s3 where e: "process_page L ?s2 (hd (to_visit s)) = (els, s3)"
    by (cases "process_page L ?s2 (hd (to_visit s))")
  with process_page_frame[of ?s2 L "hd (to_visit s)"]
  have "visited_urls s3 = visited_urls s @ [hd (to_visit s)]"
    by (simp add: frame_def)
  with e show ?thesis by (simp add: loop_body_def Let_def)
qed

lemma loop_body_skip:
  "hd (to_visit s) \<in> set (visited_urls s) \<Longrightarrow> loop_body L s = s\<lparr>to_visit := tl (to_visit s)\<rparr>"
  by (simp add: loop_body_def Let_def)

function crawl_loop :: "library \<Rightarrow> converter \<Rightarrow> converter" where
  "crawl_loop L self = (if loop_cond self then crawl_loop L (loop_body L self) else self)"
  by pat_completeness auto
termination
proof (relation "measures [\<lambda>(L, s). nat (max_pages (options s) - int (length (visited_urls s))),
                           \<lambda>(L, s). length (to_visit s)]")
  show "wf (measures [\<lambda>(L, s). nat (max_pages (options s) - int (length (visited_urls s))),
                      \<lambda>(L, s). length (to_visit s)])"
    by simp
next
  fix L :: library and self :: converter
  assume c: "loop_cond self"
  show "((L, loop_body L self), (L, self))
          \<in> measures [\<lambda>(L, s). nat (max_pages (options s) - int (length (visited_urls s))),
                      \<lambda>(L, s). length (to_visit s)]"
  proof (cases "hd (to_visit self) \<in> set (visited_urls self)")
    case True
    with c show ?thesis by (simp add: loop_body_skip loop_cond_def)
  next
    case False
    with c show ?thesis by (simp add: loop_body_options loop_body_visited loop_cond_def)
  qed
qed


declare crawl_loop.simps [simp del]

subsection \<open>The sitemap\<close>

text \<open>
  \<open>parse_sitemap\<close> calls itself on every entry of a sitemap index. The first argument
  bounds the depth of these calls, as the interpreter does: past the bound the call raises,
  the handler of \<open>parse_sitemap\<close> catches it, and the result is the empty list. The validity
  test is called without a parent, so it writes no depth.
\<close>

definition sitemap_candidates :: "converter \<Rightarrow> string list" where
  "sitemap_candidates self =
     [base_url self @ ''/sitemap.xml'',
      ''https://'' @ domain self @ ''/sitemap.xml'',
      ''https://'' @ domain self @ ''/sitemap_index.xml'']"

definition answers_200 :: "library \<Rightarrow> string \<Rightarrow> bool" where
  "answers_200 L c = (case requests_get L c of None \<Rightarrow> False | Some r \<Rightarrow> status_code r = 200)"

definition find_sitemap :: "library \<Rightarrow> converter \<Rightarrow> string option" where
  "find_sitemap L self =
     (case filter (answers_200 L) (sitemap_candidates self) of
        [] \<Rightarrow> None
      | c # cs \<Rightarrow> Some c)"

definition loc_text :: "node \<Rightarrow> string option" where
  "loc_text e = map_option get_text (node_find ''loc'' e)"

fun parse_sitemap :: "nat \<Rightarrow> library \<Rightarrow> converter \<Rightarrow> string option \<Rightarrow> string list" where
  "parse_sitemap 0 L self su = []"
| "parse_sitemap (Suc k) L self su =
     (let su1 = (if truthy su then su else find_sitemap L self) in
      if \<not> truthy su1 then []
      else
        case requests_get L (the su1) of
          None \<Rightarrow> []
        | Some r \<Rightarrow>
            if \<not> status_ok r then []
            else
              let sp = BeautifulSoup L (body r) in
              case soup_find ''sitemapindex'' sp of
                Some sitemapindex \<Rightarrow>
                  concat (map (\<lambda>sitemap.
                                case loc_text sitemap of
                                  Some loc \<Rightarrow> parse_sitemap k L self (Some loc)
                                | None \<Rightarrow> [])
                              (map fst (find_all [''sitemap''] sitemapindex)))
              | None \<Rightarrow>
                  concat (map (\<lambda>e.
                                case loc_text e of
                                  Some loc \<Rightarrow>
                                    if fst (is_valid_url L self loc None) then [loc] else []
                                | None \<Rightarrow> [])
                              (soup_find_all ''url'' sp)))"

subsection \<open>Interactive mode\<close>

text \<open>
  The discovery crawl of interactive mode keeps a visited set, a queue and a result list
  of its own; it downloads pages and extracts links from the page as parsed, and processes
  nothing.
\<close>

definition enqueue_local :: "string list \<Rightarrow> string \<Rightarrow> string list \<Rightarrow> string list" where
  "enqueue_local temp_visited link q =
     (if link \<notin> set temp_visited \<and> link \<notin> set q then q @ [link] else q)"

definition discover_body ::
  "library \<Rightarrow> string list \<times> string list \<times> string list \<times> converter
     \<Rightarrow> string list \<times> string list \<times> string list \<times> converter" where
  "discover_body L st =
     (case st of (temp_visited, q, discovered_urls, self) \<Rightarrow>
        let current_url = hd q; q1 = tl q in
        if current_url \<in> set temp_visited then (temp_visited, q1, discovered_urls, self)
        else
          let temp_visited1 = temp_visited @ [current_url];
              discovered1 = discovered_urls @ [current_url]
          in
            (case download_page L self current_url of
               (Some html_content, self1) \<Rightarrow>
                 if html_content \<noteq> [] then
                   (case extract_links L self1 (BeautifulSoup L html_content) current_url of
                      (new_links, self2) \<Rightarrow>
                        (temp_visited1, fold (enqueue_local temp_visited1) new_links q1,
                         discovered1, self2))
                 else (temp_visited1, q1, discovered1, self1)
             | (None, self1) \<Rightarrow> (temp_visited1, q1, discovered1, self1)))"

definition discover_cond :: "string list \<times> string list \<times> string list \<times> converter \<Rightarrow> bool" where
  "discover_cond st =
     (case st of (temp_visited, q, discovered_urls, self) \<Rightarrow>
        q \<noteq> [] \<and> int (length temp_visited) < max_pages (options self))"

lemma discover_body_measure:
  assumes "discover_cond (tv, q, d, s)" and "discover_body L (tv, q, d, s) = (tv', q', d', s')"
  shows "options s' = options s \<and>
         (if hd q \<in> set tv then tv' = tv \<and> q' = tl q else tv' = tv @ [hd q])"
proof (cases "hd q \<in> set tv")
  case True
  with assms(2) show ?thesis by (simp add: discover_body_def Let_def)
next
  case False
  obtain r s1 where e: "download_page L s (hd q) = (r, s1)" by (cases "download_page L s (hd q)")
  with download_page_state[of L s "hd q"] have o1: "options s1 = options s" by simp
  show ?thesis
  proof (cases "\<exists>h. r = Some h \<and> h \<noteq> []")
    case True
    then obtain h where h: "r = Some h" "h \<noteq> []" by blast
    obtain ls s2 where f: "extract_links L s1 (BeautifulSoup L h) (hd q) = (ls, s2)"
      by (cases "extract_links L s1 (BeautifulSoup L h) (hd q)")
    with extract_links_same[of s1 L "BeautifulSoup L h" "hd q"] have "frame s1 s2"
      by (simp add: same_but_depth_frame)
    then have "options s2 = options s1" by (simp add: frame_def)
    with assms(2) False e h f o1 show ?thesis by (simp add: discover_body_def Let_def)
  next
    case False
    with assms(2) \<open>hd q \<notin> set tv\<close> e o1 show ?thesis
      by (cases r) (auto simp: discover_body_def Let_def)
  qed
qed

function discover ::
  "library \<Rightarrow> string list \<times> string list \<times> string list \<times> converter \<Rightarrow> string list \<times> converter"
  where
  "discover L st =
     (if discover_cond st then discover L (discover_body L st)
      else (case st of (temp_visited, q, discovered_urls, self) \<Rightarrow> (discovered_urls, self)))"
  by pat_completeness auto
termination
proof (relation "measures [\<lambda>(L, tv, q, d, s). nat (max_pages (options s) - int (length tv)),
                           \<lambda>(L, tv, q, d, s). length q]")
  show "wf (measures [\<lambda>(L, tv, q, d, s). nat (max_pages (options s) - int (length tv)),
                      \<lambda>(L, tv, q, d, s). length q])"
    by simp
next
  fix L :: library and st :: "string list \<times> string list \<times> string list \<times> converter"
  assume c: "discover_cond st"
  obtain tv q d s where st: "st = (tv, q, d, s)" by (cases st)
  obtain tv' q' d' s' where b: "discover_body L (tv, q, d, s) = (tv', q', d', s')"
    by (cases "discover_body L (tv, q, d, s)")
  from discover_body_measure[OF c[unfolded st] b] c[unfolded st]
  show "((L, discover_body L st), (L, st))
          \<in> measures [\<lambda>(L, tv, q, d, s). nat (max_pages (options s) - int (length tv)),
                      \<lambda>(L, tv, q, d, s). length q]"
    by (auto simp: st b discover_cond_def split: if_splits)
qed

declare discover.simps [simp del]

text \<open>
  \<open>int(s)\<close> on the stripped pieces of the selection: an optional sign and decimal digits
  (the underscores and the other digits Python admits are not modelled); \<open>None\<close> is the
  \<open>ValueError\<close>.
\<close>

definition digit_of :: "char \<Rightarrow> nat option" where
  "digit_of c = map_of (zip ''0123456789'' [0, 1, 2, 3, 4, 5, 6, 7, 8, 9]) c"

fun digits_to_nat :: "nat \<Rightarrow> string \<Rightarrow> nat option" where
  "digits_to_nat acc [] = Some acc"
| "digits_to_nat acc (c # cs) =
     (case digit_of c of None \<Rightarrow> None | Some d \<Rightarrow> digits_to_nat (10 * acc + d) cs)"

definition py_int :: "string \<Rightarrow> int option" where
  "py_int s =
     (case strip s of
        [] \<Rightarrow> None
      | c # cs \<Rightarrow>
          if c = CHR ''-'' then (if cs = [] then None else map_option (\<lambda>n. - int n) (digits_to_nat 0 cs))
          else if c = CHR ''+'' then (if cs = [] then None else map_option int (digits_to_nat 0 cs))
          else map_option int (digits_to_nat 0 (c # cs)))"

text \<open>The result is the exit code of \<open>sys.exit\<close>, or the selected URLs.\<close>

definition select_urls :: "string \<Rightarrow> string list \<Rightarrow> int + string list" where
  "select_urls selection urls =
     (if lower selection = ''q'' then Inl 0
      else if lower selection = ''all'' then Inr urls
      else
        case those (map (\<lambda>i. py_int (strip i)) (split '','' selection)) of
          None \<Rightarrow> Inl 1
        | Some ns \<Rightarrow>
            Inr (map (\<lambda>i. urls ! nat i)
                   (filter (\<lambda>i. 0 \<le> i \<and> i < int (length urls)) (map (\<lambda>n. n - 1) ns))))"

definition interactive_mode :: "library \<Rightarrow> converter \<Rightarrow> int + string list \<times> converter" where
  "interactive_mode L self =
     (case (if use_sitemap (options self)
            then (parse_sitemap (recursion_limit L) L self (sitemap_url (options self)), self)
            else discover L ([], [base_url self], [], self)) of
        (urls, self1) \<Rightarrow>
          (case select_urls (user_input L) urls of
             Inl code \<Rightarrow> Inl code
           | Inr selected_urls \<Rightarrow> Inr (selected_urls, self1)))"


section \<open>The output formats\<close>

text \<open>
  What a renderer leaves at the output path. A text file is the concatenation of the
  strings written to it; when a renderer raises in the middle, the file holds what was
  written until then and the renderer returns \<open>False\<close>. The file system is taken to accept
  every write.
\<close>

datatype docx_op =
    Heading "string option" nat
  | DocParagraph string
  | DocPageBreak

datatype artifact =
    NoFile
  | PdfFile "flowable list"
  | TextFile string
  | JsonFile string "(string \<times> string option \<times> string) list"
  | DocxFile "docx_op list"

text \<open>
  \<open>write_each f xs\<close> writes \<open>f x\<close> for every \<open>x\<close> in turn and stops at the first that
  raises (\<open>None\<close>); \<open>then_write\<close> goes on writing only if nothing was raised.
\<close>

fun write_each :: "('a \<Rightarrow> string option) \<Rightarrow> 'a list \<Rightarrow> string \<times> bool" where
  "write_each f [] = ([], True)"
| "write_each f (x # xs) =
     (case f x of
        None \<Rightarrow> ([], False)
      | Some s \<Rightarrow> (case write_each f xs of (t, ok) \<Rightarrow> (s @ t, ok)))"

definition then_write :: "string \<times> bool \<Rightarrow> string \<times> bool \<Rightarrow> string \<times> bool" where
  "then_write a b = (if snd a then (fst a @ fst b, snd b) else a)"

definition create_pdf :: "library \<Rightarrow> converter \<Rightarrow> bool \<times> artifact \<times> converter" where
  "create_pdf L self =
     (if pdf_elements self = [] then (False, NoFile, self)
      else
        let self1 = (if create_toc (options self)
                     then self\<lparr>pdf_elements := TableOfContents # PageBreak # pdf_elements self\<rparr>
                     else self)
        in if doc_build_ok L (pdf_elements self1)
           then (True, PdfFile (pdf_elements self1), self1)
           else (False, NoFile, self1))"

subsection \<open>HTML\<close>

text \<open>The id of a page is \<open>url.split("//")[1].replace("/", "_")\<close>; without \<open>//\<close> in the
  URL the index is out of range.\<close>

definition html_id :: "string \<Rightarrow> string option" where
  "html_id u =
     (case split ''//'' u of
        a # b # rest \<Rightarrow> Some (replace (CHR ''/'') ''_'' b)
      | _ \<Rightarrow> None)"

definition html_head :: "converter \<Rightarrow> string" where
  "html_head self =
     ''<!DOCTYPE html>'' @ nl @ ''<html>'' @ nl @ ''<head>'' @ nl @
     ''<meta charset='' @ dquote @ ''UTF-8'' @ dquote @ ''>'' @ nl @
     ''<title>Documentation: '' @ base_url self @ ''</title>'' @ nl @
     ''<style>'' @ nl @
     ''body { font-family: Arial, sans-serif; max-width: 800px; margin: 0 auto; padding: 20px; }'' @ nl @
     ''h1 { color: #333; }'' @ nl @
     ''pre { background-color: #f5f5f5; padding: 10px; border-radius: 5px; }'' @ nl @
     ''.source { color: #666; font-size: 0.8em; margin-bottom: 20px; }'' @ nl @
     ''</style>'' @ nl @
     ''</head>'' @ nl @ ''<body>'' @ nl"

definition html_toc_item :: "string \<times> page_content \<Rightarrow> string option" where
  "html_toc_item p =
     (case html_id (fst p) of
        None \<Rightarrow> None
      | Some i \<Rightarrow>
          Some (''<li><a href='' @ dquote @ ''#'' @ i @ dquote @ ''>'' @ str_opt (title (snd p)) @
                ''</a></li>'' @ nl))"

definition html_page :: "string \<times> page_content \<Rightarrow> string option" where
  "html_page p =
     (case html_id (fst p) of
        None \<Rightarrow> None
      | Some i \<Rightarrow>
          Some (''<div id='' @ dquote @ i @ dquote @ ''>'' @ nl @
                ''<h1>'' @ str_opt (title (snd p)) @ ''</h1>'' @ nl @
                ''<div class='' @ dquote @ ''source'' @ dquote @ ''>Source: <a href='' @ dquote @
                  fst p @ dquote @ ''>'' @ fst p @ ''</a></div>'' @ nl @
                html (snd p) @
                nl @ ''<hr>'' @ nl @ ''</div>'' @ nl))"

definition html_toc_part :: "converter \<Rightarrow> string \<times> bool" where
  "html_toc_part self =
     (if create_toc (options self) \<and> contents self \<noteq> [] then
        then_write (''<h2>Table of Contents</h2>'' @ nl @ ''<ul>'' @ nl, True)
          (then_write (write_each html_toc_item (contents self))
             (''</ul>'' @ nl @ ''<hr>'' @ nl, True))
      else ([], True))"

definition create_html :: "converter \<Rightarrow> bool \<times> artifact \<times> converter" where
  "create_html self =
     (let out = then_write (html_head self, True)
                  (then_write (html_toc_part self)
                     (then_write (write_each html_page (contents self))
                        (''</body>'' @ nl @ ''</html>'', True)))
      in (snd out, TextFile (fst out), self))"

subsection \<open>JSON\<close>

definition json_pages :: "converter \<Rightarrow> (string \<times> string option \<times> string) list" where
  "json_pages self = map (\<lambda>p. (fst p, title (snd p), text' (snd p))) (contents self)"

definition create_json :: "converter \<Rightarrow> bool \<times> artifact \<times> converter" where
  "create_json self = (True, JsonFile (base_url self) (json_pages self), self)"

subsection \<open>Markdown\<close>

text \<open>
  The anchor of a page is computed from its title twice, by the same expression: for the
  entry of the table of contents and for the heading of the section. A title that is
  \<open>None\<close> has no \<open>lower()\<close>: the renderer raises.
\<close>

definition md_toc_item :: "string \<times> page_content \<Rightarrow> string option" where
  "md_toc_item p =
     (case title (snd p) of
        None \<Rightarrow> None
      | Some t \<Rightarrow>
          let anchor = replace (CHR ''.'') [] (replace (CHR '':'') []
                         (replace (CHR '' '') ''-'' (lower t)))
          in Some (''- ['' @ t @ ''](#'' @ anchor @ '')'' @ nl))"

definition md_paragraphs :: "string \<Rightarrow> string list" where
  "md_paragraphs s = map strip (filter (\<lambda>p. strip p \<noteq> []) (split (nl @ nl) s))"

definition md_page :: "string \<times> page_content \<Rightarrow> string option" where
  "md_page p =
     (case title (snd p) of
        None \<Rightarrow> None
      | Some t \<Rightarrow>
          let anchor = replace (CHR ''.'') [] (replace (CHR '':'') []
                         (replace (CHR '' '') ''-'' (lower t)))
          in Some (''## '' @ t @ '' <a id='' @ dquote @ anchor @ dquote @ ''></a>'' @ nl @ nl @
                   ''Source: ['' @ fst p @ '']('' @ fst p @ '')'' @ nl @ nl @
                   concat (map (\<lambda>q. q @ nl @ nl) (md_paragraphs (text' (snd p)))) @
                   ''---'' @ nl @ nl))"

definition md_toc_part :: "converter \<Rightarrow> string \<times> bool" where
  "md_toc_part self =
     (if create_toc (options self) \<and> contents self \<noteq> [] then
        then_write (''## Table of Contents'' @ nl @ nl, True)
          (then_write (write_each md_toc_item (contents self))
             (nl @ ''---'' @ nl @ nl, True))
      else ([], True))"

definition create_markdown :: "converter \<Rightarrow> bool \<times> artifact \<times> converter" where
  "create_markdown self =
     (let out = then_write (''# Documentation: '' @ base_url self @ nl @ nl, True)
                  (then_write (md_toc_part self) (write_each md_page (contents self)))
      in (snd out, TextFile (fst out), self))"

subsection \<open>DOCX\<close>

text \<open>
  The file is the list of the operations on the document, in their order; a heading takes
  a title that is \<open>None\<close> as no text. The library is taken to accept every text.
\<close>

definition docx_page :: "string \<times> page_content \<Rightarrow> docx_op list" where
  "docx_page p =
     [Heading (title (snd p)) 1, DocParagraph (''Source: '' @ fst p),
      DocParagraph (text' (snd p)), DocPageBreak]"

definition create_docx :: "library \<Rightarrow> converter \<Rightarrow> bool \<times> artifact \<times> converter" where
  "create_docx L self =
     (if \<not> docx_installed L then (False, NoFile, self)
      else
        (True,
         DocxFile
           ([Heading (Some (''Documentation: '' @ base_url self)) 0] @
            (if create_toc (options self) then
               [Heading (Some ''Table of Contents'') 1,
                DocParagraph (''To update this table, right-click and select '' @ dquote @
                              ''Update Field'' @ dquote @ ''.''),
                DocParagraph []]
             else []) @
            concat (map docx_page (contents self))),
         self))"

section \<open>The run\<close>

text \<open>
  \<open>seed\<close> is \<open>run\<close> up to the main loop: the queue of sitemap mode, then the queue of
  interactive mode, and the exit code when the user leaves there. \<open>run\<close> is the whole:
  the seeding, the main loop, and only then the choice of the renderer by the format.
\<close>

definition seed :: "library \<Rightarrow> converter \<Rightarrow> int + converter" where
  "seed L self =
     (let self1 = (if use_sitemap (options self)
                   then self\<lparr>to_visit :=
                          parse_sitemap (recursion_limit L) L self (sitemap_url (options self))\<rparr>
                   else self)
      in if interactive (options self1) then
           (case interactive_mode L self1 of
              Inl code \<Rightarrow> Inl code
            | Inr (selected_urls, self2) \<Rightarrow> Inr (self2\<lparr>to_visit := selected_urls\<rparr>))
         else Inr self1)"

definition render :: "library \<Rightarrow> converter \<Rightarrow> bool \<times> artifact \<times> converter" where
  "render L self =
     (let fmt = lower (format (options self)) in
      if fmt = ''pdf'' then create_pdf L self
      else if fmt = ''html'' then create_html self
      else if fmt = ''json'' then create_json self
      else if fmt = ''md'' \<or> fmt = ''markdown'' then create_markdown self
      else if fmt = ''docx'' then create_docx L self
      else (False, NoFile, self))"

definition run :: "library \<Rightarrow> converter \<Rightarrow> int + bool \<times> artifact \<times> converter" where
  "run L self =
     (case seed L self of
        Inl code \<Rightarrow> Inl code
      | Inr self1 \<Rightarrow> Inr (render L (crawl_loop L self1)))"


text \<open>
  \<open>main\<close>: the argument parser refuses a format outside its choices, with exit code 2,
  before the converter is built; otherwise the options are the parsed arguments. The
  result is the exit code or what \<open>run\<close> returned. (The output path plays no part in the
  model.)
\<close>

definition format_choices :: "string list" where
  "format_choices = [''pdf'', ''html'', ''json'', ''docx'', ''md'', ''markdown'']"

record cli_args =
  arg_url :: string
  arg_format :: string
  arg_max_depth :: "int option"
  arg_max_pages :: int
  arg_contains :: "string option"
  arg_not_contains :: "string option"
  arg_categories :: "string option"
  arg_use_sitemap :: bool
  arg_sitemap_url :: "string option"
  arg_toc :: bool
  arg_interactive :: bool

definition main :: "library \<Rightarrow> cli_args \<Rightarrow> int + bool" where
  "main L a =
     (if arg_format a \<notin> set format_choices then Inl 2
      else
        case run L (init L (arg_url a)
                      \<lparr>max_pages = arg_max_pages a, max_depth = arg_max_depth a,
                       format = arg_format a, use_sitemap = arg_use_sitemap a,
                       sitemap_url = arg_sitemap_url a, categories = arg_categories a,
                       contains = arg_contains a, not_contains = arg_not_contains a,
                       create_toc = arg_toc a, interactive = arg_interactive a\<rparr>) of
          Inl code \<Rightarrow> Inl code
        | Inr r \<Rightarrow> Inr (fst r))"

text \<open>The text a renderer has written, if its file is a text file.\<close>

definition written :: "bool \<times> artifact \<times> converter \<Rightarrow> string" where
  "written r = (case fst (snd r) of TextFile t \<Rightarrow> t | _ \<Rightarrow> [])"

section \<open>A concrete library and small sites\<close>

text \<open>
  The theorems below hold for every library. Their instances at concrete inputs need one:
  \<open>std_library\<close> answers requests from a table of pages, parses the bodies it is given the
  trees of, and refuses the paragraphs listed as malformed markup. \<open>urlparse_std\<close> and
  \<open>urljoin_std\<close> follow urllib on URLs of the shape \<open>scheme://host/path?query#fragment\<close>
  and on references that are such URLs or absolute paths, or relative paths without dot
  segments; path parameters are not split off.
\<close>

definition scheme_chars :: string where
  "scheme_chars = ''abcdefghijklmnopqrstuvwxyzABCDEFGHIJKLMNOPQRSTUVWXYZ0123456789+-.''"

definition scheme_of :: "string \<Rightarrow> string" where
  "scheme_of u =
     (let pre = takeWhile (\<lambda>c. c \<noteq> CHR '':'') u in
      if pre \<noteq> [] \<and> length pre < length u \<and> list_all (\<lambda>c. c \<in> set scheme_chars) pre
      then pre else [])"

definition after_scheme :: "string \<Rightarrow> string" where
  "after_scheme u = (if scheme_of u = [] then u else drop (length (scheme_of u) + 1) u)"

definition urlparse_std :: "string \<Rightarrow> parse_result" where
  "urlparse_std u =
     (let r = after_scheme u;
          host = (if prefix ''//'' r then takeWhile (\<lambda>c. c \<notin> set ''/?#'') (drop 2 r) else []);
          r1 = (if prefix ''//'' r then dropWhile (\<lambda>c. c \<notin> set ''/?#'') (drop 2 r) else r)
      in \<lparr>netloc = host, path = takeWhile (\<lambda>c. c \<notin> set ''?#'') r1\<rparr>)"

definition urljoin_std :: "string \<Rightarrow> string \<Rightarrow> string" where
  "urljoin_std b href =
     (if href = [] then b
      else if scheme_of href \<noteq> [] then href
      else if prefix ''/'' href then
        scheme_of b @ ''://'' @ netloc (urlparse_std b) @ href
      else
        scheme_of b @ ''://'' @ netloc (urlparse_std b) @
          rsplit1_head (CHR ''/'') (path (urlparse_std b)) @ ''/'' @ href)"

definition escape_char :: "char \<Rightarrow> string" where
  "escape_char c =
     (if c = CHR ''&'' then ''&amp;''
      else if c = CHR ''<'' then ''&lt;''
      else if c = CHR ''>'' then ''&gt;''
      else [c])"

fun serialize :: "node \<Rightarrow> string" where
  "serialize (NavigableString s) = concat (map escape_char s)"
| "serialize (Tag n cl at ch) =
     ''<'' @ n @
     (if cl = [] then []
      else '' class='' @ dquote @ concat (map (\<lambda>c. c @ '' '') (butlast cl)) @ last cl @ dquote) @
     concat (map (\<lambda>kv. '' '' @ fst kv @ ''='' @ dquote @ snd kv @ dquote) at) @
     ''>'' @ concat (map serialize ch) @ ''</'' @ n @ ''>''"

definition html_response :: "string \<Rightarrow> response" where
  "html_response b = \<lparr>status_code = 200, content_type = ''text/html; charset=utf-8'', body = b\<rparr>"

definition std_library ::
  "(string \<times> response) list \<Rightarrow> (string \<times> soup) list \<Rightarrow> string list \<Rightarrow> string \<Rightarrow> library" where
  "std_library site parses bad_markup typed =
     \<lparr>urlparse = urlparse_std,
      urljoin = urljoin_std,
      requests_get = map_of site,
      BeautifulSoup = (\<lambda>h. case map_of parses h of Some sp \<Rightarrow> sp | None \<Rightarrow> []),
      str_tag = serialize,
      Paragraph_ok = (\<lambda>s. s \<notin> set bad_markup),
      image_decodes = (\<lambda>u. True),
      Image_ok = (\<lambda>n. True),
      recursion_limit = 1000,
      user_input = typed,
      doc_build_ok = (\<lambda>fs. True),
      docx_installed = True\<rparr>"

text \<open>
  The guide: a start page whose only link stands in its \<open>nav\<close> bar, and the page the link
  leads to.
\<close>

definition guide_url :: string where
  "guide_url = ''https://docs.example.com/guide/''"

definition setup_url :: string where
  "setup_url = ''https://docs.example.com/guide/setup''"

definition guide_html :: string where
  "guide_html =
     ''<html><head><title>Guide</title></head><body>'' @
     ''<nav><a href=https://docs.example.com/guide/setup>Setup</a></nav>'' @
     ''<main><p>Welcome</p></main></body></html>''"

definition guide_soup :: soup where
  "guide_soup =
     [Tag ''html'' [] []
        [Tag ''head'' [] [] [Tag ''title'' [] [] [NavigableString ''Guide'']],
         Tag ''body'' [] []
           [Tag ''nav'' [] []
              [Tag ''a'' [] [(''href'', ''https://docs.example.com/guide/setup'')]
                 [NavigableString ''Setup'']],
            Tag ''main'' [] [] [Tag ''p'' [] [] [NavigableString ''Welcome'']]]]]"

definition setup_html :: string where
  "setup_html =
     ''<html><head><title>Setup</title></head><body>'' @
     ''<main><p>Install</p></main></body></html>''"

definition setup_soup :: soup where
  "setup_soup =
     [Tag ''html'' [] []
        [Tag ''head'' [] [] [Tag ''title'' [] [] [NavigableString ''Setup'']],
         Tag ''body'' [] []
           [Tag ''main'' [] [] [Tag ''p'' [] [] [NavigableString ''Install'']]]]]"

definition guide_library :: library where
  "guide_library =
     std_library
       [(guide_url, html_response guide_html), (setup_url, html_response setup_html)]
       [(guide_html, guide_soup), (setup_html, setup_soup)] [] []"


text \<open>A record with the title of the Markdown example.\<close>

definition v2_page :: "string \<times> page_content" where
  "v2_page =
     (''https://docs.example.com/guide/v2'',
      \<lparr>title = Some ''Getting Started: V2.'', html = ''<main><p>Hello</p></main>'',
       text' = ''Hello'', url = ''https://docs.example.com/guide/v2''\<rparr>)"

definition v2_converter :: converter where
  "v2_converter =
     (init guide_library guide_url (default_options\<lparr>format := ''md'', create_toc := True\<rparr>))
       \<lparr>contents := [v2_page]\<rparr>"

text \<open>
  The content filter in the words of the specification: the keywords of an option are its
  comma-separated entries without the white space around them, and a keyword matches a text
  when it occurs in it, letter case aside.
\<close>

definition configured_keywords :: "string \<Rightarrow> string list" where
  "configured_keywords s = map strip (split '','' s)"

definition ci_substring :: "string \<Rightarrow> string \<Rightarrow> bool" where
  "ci_substring k t = str_in (lower k) (lower t)"

definition accept_spec :: "string option \<Rightarrow> string option \<Rightarrow> string \<Rightarrow> bool" where
  "accept_spec inc exc t =
     ((\<not> truthy inc \<or> (\<exists>k \<in> set (configured_keywords (the inc)). ci_substring k t)) \<and>
      (\<not> truthy exc \<or> \<not> (\<exists>k \<in> set (configured_keywords (the exc)). ci_substring k t)))"

text \<open>A converter with both keyword filters, and two pages for it.\<close>

definition filtered_converter :: converter where
  "filtered_converter =
     init guide_library guide_url
       (default_options\<lparr>contains := Some ''guide,tutorial'', not_contains := Some ''deprecated''\<rparr>)"

definition tutorial_soup :: soup where
  "tutorial_soup = [Tag ''body'' [] [] [Tag ''p'' [] [] [NavigableString ''A short Guide'']]]"

definition deprecated_soup :: soup where
  "deprecated_soup =
     [Tag ''body'' [] [] [Tag ''p'' [] [] [NavigableString ''This guide is Deprecated'']]]"

text \<open>
  The chain: a start page that links to page A by a URL with a fragment, page A that links
  to page B, and a second start page that links to page A by the plain URL. The fragment
  is not part of what is requested, so page A answers under both spellings.
\<close>

definition chain_url :: string where
  "chain_url = ''https://docs.example.com/chain/''"

definition chain_index_url :: string where
  "chain_index_url = ''https://docs.example.com/chain/index''"

definition chain_a_url :: string where
  "chain_a_url = ''https://docs.example.com/chain/a''"

definition chain_a_top_url :: string where
  "chain_a_top_url = ''https://docs.example.com/chain/a#top''"

definition chain_b_url :: string where
  "chain_b_url = ''https://docs.example.com/chain/b''"

definition chain_html :: string where
  "chain_html =
     ''<html><head><title>Chain</title></head><body><main><p>Start</p>'' @
     ''<a href=https://docs.example.com/chain/a#top>A</a></main></body></html>''"

definition chain_soup :: soup where
  "chain_soup =
     [Tag ''html'' [] []
        [Tag ''head'' [] [] [Tag ''title'' [] [] [NavigableString ''Chain'']],
         Tag ''body'' [] []
           [Tag ''main'' [] []
              [Tag ''p'' [] [] [NavigableString ''Start''],
               Tag ''a'' [] [(''href'', ''https://docs.example.com/chain/a#top'')]
                 [NavigableString ''A'']]]]]"

definition chain_index_html :: string where
  "chain_index_html =
     ''<html><head><title>Index</title></head><body><main><p>Start</p>'' @
     ''<a href=https://docs.example.com/chain/a>A</a></main></body></html>''"

definition chain_index_soup :: soup where
  "chain_index_soup =
     [Tag ''html'' [] []
        [Tag ''head'' [] [] [Tag ''title'' [] [] [NavigableString ''Index'']],
         Tag ''body'' [] []
           [Tag ''main'' [] []
              [Tag ''p'' [] [] [NavigableString ''Start''],
               Tag ''a'' [] [(''href'', ''https://docs.example.com/chain/a'')]
                 [NavigableString ''A'']]]]]"

definition chain_a_html :: string where
  "chain_a_html =
     ''<html><head><title>A</title></head><body><main><p>Page A</p>'' @
     ''<a href=https://docs.example.com/chain/b>B</a></main></body></html>''"

definition chain_a_soup :: soup where
  "chain_a_soup =
     [Tag ''html'' [] []
        [Tag ''head'' [] [] [Tag ''title'' [] [] [NavigableString ''A'']],
         Tag ''body'' [] []
           [Tag ''main'' [] []
              [Tag ''p'' [] [] [NavigableString ''Page A''],
               Tag ''a'' [] [(''href'', ''https://docs.example.com/chain/b'')]
                 [NavigableString ''B'']]]]]"

definition chain_b_html :: string where
  "chain_b_html =
     ''<html><head><title>B</title></head><body><main><p>Page B</p></main></body></html>''"

definition chain_b_soup :: soup where
  "chain_b_soup =
     [Tag ''html'' [] []
        [Tag ''head'' [] [] [Tag ''title'' [] [] [NavigableString ''B'']],
         Tag ''body'' [] [] [Tag ''main'' [] [] [Tag ''p'' [] [] [NavigableString ''Page B'']]]]]"

definition chain_library :: library where
  "chain_library =
     std_library
       [(chain_url, html_response chain_html),
        (chain_index_url, html_response chain_index_html),
        (chain_a_url, html_response chain_a_html),
        (chain_a_top_url, html_response chain_a_html),
        (chain_b_url, html_response chain_b_html)]
       [(chain_html, chain_soup), (chain_index_html, chain_index_soup),
        (chain_a_html, chain_a_soup), (chain_b_html, chain_b_soup)] [] []"

text \<open>The two crawls of the chain with a maximal depth of 1.\<close>

definition chain_converter :: converter where
  "chain_converter = init chain_library chain_url (default_options\<lparr>max_depth := Some 1\<rparr>)"

definition chain_index_converter :: converter where
  "chain_index_converter =
     init chain_library chain_index_url (default_options\<lparr>max_depth := Some 1\<rparr>)"
























text \<open>The converter of the guide with the default options.\<close>

definition guide_converter :: converter where
  "guide_converter = init guide_library guide_url default_options"

text \<open>
  The manual: a start page with links, in its main content, to two pages of the manual and
  to a page on another host; page A links back to the start page and on to page B.
\<close>

definition manual_url :: string where
  "manual_url = ''https://docs.example.com/manual/''"

definition page_a_url :: string where
  "page_a_url = ''https://docs.example.com/manual/a''"

definition page_b_url :: string where
  "page_b_url = ''https://docs.example.com/manual/b''"

definition manual_html :: string where
  "manual_html =
     ''<html><head><title>Manual</title></head><body><main><p>Start</p>'' @
     ''<a href=https://docs.example.com/manual/a>A</a>'' @
     ''<a href=https://docs.example.com/manual/b>B</a>'' @
     ''<a href=https://other.example.org/x>X</a></main></body></html>''"

definition manual_soup :: soup where
  "manual_soup =
     [Tag ''html'' [] []
        [Tag ''head'' [] [] [Tag ''title'' [] [] [NavigableString ''Manual'']],
         Tag ''body'' [] []
           [Tag ''main'' [] []
              [Tag ''p'' [] [] [NavigableString ''Start''],
               Tag ''a'' [] [(''href'', ''https://docs.example.com/manual/a'')] [NavigableString ''A''],
               Tag ''a'' [] [(''href'', ''https://docs.example.com/manual/b'')] [NavigableString ''B''],
               Tag ''a'' [] [(''href'', ''https://other.example.org/x'')] [NavigableString ''X'']]]]]"

definition page_a_html :: string where
  "page_a_html =
     ''<html><head><title>A</title></head><body><main><p>Page A</p>'' @
     ''<a href=https://docs.example.com/manual/>Home</a>'' @
     ''<a href=https://docs.example.com/manual/b>B</a></main></body></html>''"

definition page_a_soup :: soup where
  "page_a_soup =
     [Tag ''html'' [] []
        [Tag ''head'' [] [] [Tag ''title'' [] [] [NavigableString ''A'']],
         Tag ''body'' [] []
           [Tag ''main'' [] []
              [Tag ''p'' [] [] [NavigableString ''Page A''],
               Tag ''a'' [] [(''href'', ''https://docs.example.com/manual/'')] [NavigableString ''Home''],
               Tag ''a'' [] [(''href'', ''https://docs.example.com/manual/b'')] [NavigableString ''B'']]]]]"

definition page_b_html :: string where
  "page_b_html =
     ''<html><head><title>B</title></head><body><main><p>Page B</p></main></body></html>''"

definition page_b_soup :: soup where
  "page_b_soup =
     [Tag ''html'' [] []
        [Tag ''head'' [] [] [Tag ''title'' [] [] [NavigableString ''B'']],
         Tag ''body'' [] [] [Tag ''main'' [] [] [Tag ''p'' [] [] [NavigableString ''Page B'']]]]]"

definition manual_library :: library where
  "manual_library =
     std_library
       [(manual_url, html_response manual_html), (page_a_url, html_response page_a_html),
        (page_b_url, html_response page_b_html)]
       [(manual_html, manual_soup), (page_a_html, page_a_soup), (page_b_html, page_b_soup)] [] []"

definition manual_converter :: converter where
  "manual_converter = init manual_library manual_url default_options"

text \<open>The same converter asked for a format that is not supported.\<close>

definition supported_formats :: "string list" where
  "supported_formats = [''pdf'', ''html'', ''json'', ''md'', ''markdown'', ''docx'']"

definition pptx_converter :: converter where
  "pptx_converter = init manual_library manual_url (default_options\<lparr>format := ''pptx''\<rparr>)"

definition pptx_args :: cli_args where
  "pptx_args =
     \<lparr>arg_url = manual_url, arg_format = ''pptx'', arg_max_depth = None, arg_max_pages = 250,
      arg_contains = None, arg_not_contains = None, arg_categories = None,
      arg_use_sitemap = False, arg_sitemap_url = None, arg_toc = False,
      arg_interactive = False\<rparr>"

text \<open>A converter of the guide whose include keyword occurs on no page.\<close>

definition strict_converter :: converter where
  "strict_converter = init guide_library guide_url (default_options\<lparr>contains := Some ''zebra''\<rparr>)"

text \<open>A sitemap that lists the setup page of the guide twice.\<close>

definition sitemap_xml_url :: string where
  "sitemap_xml_url = ''https://docs.example.com/sitemap.xml''"

definition sitemap_xml :: string where
  "sitemap_xml =
     ''<urlset><url><loc>https://docs.example.com/guide/setup</loc></url>'' @
     ''<url><loc>https://docs.example.com/guide/setup</loc></url></urlset>''"

definition sitemap_soup :: soup where
  "sitemap_soup =
     [Tag ''urlset'' [] []
        [Tag ''url'' [] [] [Tag ''loc'' [] [] [NavigableString ''https://docs.example.com/guide/setup'']],
         Tag ''url'' [] [] [Tag ''loc'' [] [] [NavigableString ''https://docs.example.com/guide/setup'']]]]"

definition sitemap_library :: library where
  "sitemap_library =
     std_library
       [(sitemap_xml_url, \<lparr>status_code = 200, content_type = ''application/xml'', body = sitemap_xml\<rparr>),
        (setup_url, html_response setup_html)]
       [(sitemap_xml, sitemap_soup), (setup_html, setup_soup)] [] []"

definition sitemap_converter :: converter where
  "sitemap_converter =
     init sitemap_library guide_url
       (default_options\<lparr>use_sitemap := True, sitemap_url := Some sitemap_xml_url\<rparr>)"

text \<open>
  The same object with another page budget, another format, or both: the theorems on the
  budget and on the format compare the crawls of two such objects.
\<close>

definition retune :: "int \<Rightarrow> string \<Rightarrow> converter \<Rightarrow> converter" where
  "retune m f s = s\<lparr>options := (options s)\<lparr>max_pages := m, format := f\<rparr>\<rparr>"

definition with_budget :: "int \<Rightarrow> converter \<Rightarrow> converter" where
  "with_budget m s = s\<lparr>options := (options s)\<lparr>max_pages := m\<rparr>\<rparr>"

definition with_format :: "string \<Rightarrow> converter \<Rightarrow> converter" where
  "with_format f s = s\<lparr>options := (options s)\<lparr>format := f\<rparr>\<rparr>"

text \<open>
  \<open>fresh_tail s t\<close>: from \<open>s\<close> to \<open>t\<close> the visited set is the same and the queue has grown
  at its end, by URLs that are different from one another, not visited and not queued in
  \<open>s\<close>. \<open>crawl_reaches L s0 s\<close>: the main loop started in \<open>s0\<close> comes to \<open>s\<close> at the
  head of one of its turns.
\<close>

definition fresh_tail :: "converter \<Rightarrow> converter \<Rightarrow> bool" where
  "fresh_tail s t =
     (visited_urls t = visited_urls s \<and>
      (\<exists>new. to_visit t = to_visit s @ new \<and> distinct new \<and>
         set new \<inter> (set (visited_urls s) \<union> set (to_visit s)) = {}))"

inductive crawl_reaches :: "library \<Rightarrow> converter \<Rightarrow> converter \<Rightarrow> bool" for L s0 where
  start: "crawl_reaches L s0 s0"
| turn: "crawl_reaches L s0 s \<Longrightarrow> loop_cond s \<Longrightarrow> crawl_reaches L s0 (loop_body L s)"

section \<open>Properties of the renderers\<close>

lemma then_write_snd: "snd (then_write a b) = (snd a \<and> snd b)"
  by (simp add: then_write_def)

lemma then_write_fst: "snd a \<Longrightarrow> fst (then_write a b) = fst a @ fst b"
  by (simp add: then_write_def)

lemma write_each_True:
  "write_each f xs = (t, True) \<Longrightarrow> x \<in> set xs \<Longrightarrow> \<exists>s a b. f x = Some s \<and> t = a @ s @ b"
proof (induction xs arbitrary: t)
  case Nil
  then show ?case by simp
next
  case (Cons y ys)
  from Cons.prems(1) obtain s0 t' where y: "f y = Some s0" and r: "write_each f ys = (t', True)"
    and t: "t = s0 @ t'"
    by (auto split: option.splits prod.splits)
  show ?case
  proof (cases "x = y")
    case True
    with y t show ?thesis by (intro exI[of _ s0] exI[of _ "[]"] exI[of _ t']) simp
  next
    case False
    with Cons.prems(2) have "x \<in> set ys" by simp
    from Cons.IH[OF r this] obtain s a b where "f x = Some s" "t' = a @ s @ b" by blast
    with t show ?thesis by (intro exI[of _ s] exI[of _ "s0 @ a"] exI[of _ b]) simp
  qed
qed

lemma create_markdown_alt:
  "create_markdown self =
     (snd (md_toc_part self) \<and> snd (write_each md_page (contents self)),
      TextFile (fst (then_write (''# Documentation: '' @ base_url self @ nl @ nl, True)
                  (then_write (md_toc_part self) (write_each md_page (contents self))))),
      self)"
  by (simp add: create_markdown_def Let_def then_write_snd)

lemma create_markdown_pages:
  assumes ok: "fst (create_markdown self)" and p: "p \<in> set (contents self)"
  shows "\<exists>s a b. md_page p = Some s \<and> written (create_markdown self) = a @ s @ b"
proof -
  obtain t ok' where w: "write_each md_page (contents self) = (t, ok')"
    by (cases "write_each md_page (contents self)")
  from ok w have ok': "ok'" and tk: "snd (md_toc_part self)"
    by (simp_all add: create_markdown_alt)
  from w ok' have w': "write_each md_page (contents self) = (t, True)" by simp
  from write_each_True[OF w' p]
  obtain s a b where s: "md_page p = Some s" "t = a @ s @ b" by blast
  have "written (create_markdown self) =
          (''# Documentation: '' @ base_url self @ nl @ nl) @ fst (md_toc_part self) @ t"
    using tk w' by (simp add: create_markdown_alt written_def then_write_fst)
  with s(2) have "written (create_markdown self) =
          ((''# Documentation: '' @ base_url self @ nl @ nl) @ fst (md_toc_part self) @ a) @ s @ b"
    by simp
  with s(1) show ?thesis by blast
qed

lemma create_markdown_toc:
  assumes ok: "fst (create_markdown self)" and p: "p \<in> set (contents self)"
    and toc: "create_toc (options self)"
  shows "\<exists>s a b. md_toc_item p = Some s \<and> written (create_markdown self) = a @ s @ b"
proof -
  obtain t ok' where w: "write_each md_toc_item (contents self) = (t, ok')"
    by (cases "write_each md_toc_item (contents self)")
  from p have ne: "contents self \<noteq> []" by auto
  from ok have tk: "snd (md_toc_part self)" by (simp add: create_markdown_alt)
  with toc ne w have ok': "ok'" by (simp add: md_toc_part_def then_write_snd)
  from w ok' have w': "write_each md_toc_item (contents self) = (t, True)" by simp
  from write_each_True[OF w' p]
  obtain s a b where s: "md_toc_item p = Some s" "t = a @ s @ b" by blast
  have f: "fst (md_toc_part self) = (''## Table of Contents'' @ nl @ nl) @ t @ (nl @ ''---'' @ nl @ nl)"
    using toc ne w' by (simp add: md_toc_part_def then_write_fst)
  have "written (create_markdown self) =
          (''# Documentation: '' @ base_url self @ nl @ nl) @ fst (md_toc_part self) @
          fst (write_each md_page (contents self))"
    using tk by (simp add: create_markdown_alt written_def then_write_fst)
  with f s(2) have "written (create_markdown self) =
          ((''# Documentation: '' @ base_url self @ nl @ nl) @ (''## Table of Contents'' @ nl @ nl) @ a)
          @ s @ (b @ (nl @ ''---'' @ nl @ nl) @ fst (write_each md_page (contents self)))"
    by simp
  with s(1) show ?thesis by blast
qed

text \<open>
  C8. A record whose title is \<open>Getting Started: V2.\<close> gets the anchor
  \<open>getting-started-v2\<close>: the title in lower case, its spaces turned into hyphens, its colon
  and its full stop removed. The entry of the table of contents links to this anchor and
  the heading of the section declares it, and both stand in the file that
  \<open>create_markdown\<close> writes when it succeeds (the entry when the table of contents is on).
\<close>

theorem markdown_anchor:
  assumes "title (snd p) = Some ''Getting Started: V2.''"
  shows "md_toc_item p = Some (''- [Getting Started: V2.](#getting-started-v2)'' @ nl) \<and>
         md_page p =
           Some (''## Getting Started: V2. <a id='' @ dquote @ ''getting-started-v2'' @ dquote @
                 ''></a>'' @ nl @ nl @
                 ''Source: ['' @ fst p @ '']('' @ fst p @ '')'' @ nl @ nl @
                 concat (map (\<lambda>q. q @ nl @ nl) (md_paragraphs (text' (snd p)))) @
                 ''---'' @ nl @ nl) \<and>
         (\<forall>self. p \<in> set (contents self) \<and> fst (create_markdown self) \<longrightarrow>
            (\<exists>a b. written (create_markdown self) = a @ the (md_page p) @ b) \<and>
            (create_toc (options self) \<longrightarrow>
               (\<exists>a b. written (create_markdown self) = a @ the (md_toc_item p) @ b)))"
proof (intro conjI allI impI)
  show "md_toc_item p = Some (''- [Getting Started: V2.](#getting-started-v2)'' @ nl)"
    using assms by (simp add: md_toc_item_def replace_def lower_def lower_char_def)
  show "md_page p =
           Some (''## Getting Started: V2. <a id='' @ dquote @ ''getting-started-v2'' @ dquote @
                 ''></a>'' @ nl @ nl @
                 ''Source: ['' @ fst p @ '']('' @ fst p @ '')'' @ nl @ nl @
                 concat (map (\<lambda>q. q @ nl @ nl) (md_paragraphs (text' (snd p)))) @
                 ''---'' @ nl @ nl)"
    using assms by (simp add: md_page_def replace_def lower_def lower_char_def)
next
  fix self assume a: "p \<in> set (contents self) \<and> fst (create_markdown self)"
  from create_markdown_pages[of self p] a
  obtain s c d where "md_page p = Some s" "written (create_markdown self) = c @ s @ d" by blast
  then have "written (create_markdown self) = c @ the (md_page p) @ d" by simp
  then show "\<exists>a b. written (create_markdown self) = a @ the (md_page p) @ b" by blast
next
  fix self assume a: "p \<in> set (contents self) \<and> fst (create_markdown self)"
    and t: "create_toc (options self)"
  from create_markdown_toc[of self p] a t
  obtain s c d where "md_toc_item p = Some s" "written (create_markdown self) = c @ s @ d" by blast
  then have "written (create_markdown self) = c @ the (md_toc_item p) @ d" by simp
  then show "\<exists>a b. written (create_markdown self) = a @ the (md_toc_item p) @ b" by blast
qed


theorem markdown_anchor_witness:
  "title (snd v2_page) = Some ''Getting Started: V2.'' \<and>
   v2_page \<in> set (contents v2_converter) \<and> fst (create_markdown v2_converter) \<and>
   create_toc (options v2_converter) \<and>
   md_toc_item v2_page = Some (''- [Getting Started: V2.](#getting-started-v2)'' @ nl) \<and>
   (\<exists>a b. written (create_markdown v2_converter) = a @ the (md_page v2_page) @ b) \<and>
   (\<exists>a b. written (create_markdown v2_converter) = a @ the (md_toc_item v2_page) @ b)"
proof -
  have t: "title (snd v2_page) = Some ''Getting Started: V2.''"
    by (simp add: v2_page_def)
  have c: "v2_page \<in> set (contents v2_converter)"
    by (simp add: v2_converter_def)
  have o: "create_toc (options v2_converter)"
    by (simp add: v2_converter_def init_def default_options_def)
  have k: "fst (create_markdown v2_converter)"
    by (simp add: create_markdown_alt md_toc_part_def then_write_snd v2_converter_def
        v2_page_def md_toc_item_def md_page_def)
  from markdown_anchor[OF t] t c o k show ?thesis by blast
qed

section \<open>Properties of the content filter\<close>

lemma isspace_lower_char: "isspace (lower_char c) = isspace c"
  by (auto simp: isspace_def lower_char_def split: option.splits if_splits)

lemma strip_lower: "strip (lower s) = lower (strip s)"
  by (simp add: strip_def lower_def dropWhile_map rev_map comp_def isspace_lower_char)

lemma keyword_match:
  "list_ex (\<lambda>keyword. str_in keyword (lower t)) (filter_keywords s) =
   (\<exists>k \<in> set (configured_keywords s). ci_substring k t)"
  by (simp add: list_ex_iff filter_keywords_def configured_keywords_def ci_substring_def
      strip_lower)

text \<open>
  C7. \<open>check_content_filters\<close> accepts a page exactly when the include list is not
  configured or one of its keywords occurs in the text of the page, letter case aside, and
  the exclude list is not configured or none of its keywords occurs. So a page with an
  exclude keyword is rejected whatever else it holds, and without filters every page is
  accepted.
\<close>

theorem content_filter_accepts:
  "check_content_filters self sp u =
     accept_spec (contains (options self)) (not_contains (options self)) (soup_get_text sp) \<and>
   (truthy (not_contains (options self)) \<and>
    (\<exists>k \<in> set (configured_keywords (the (not_contains (options self)))).
        ci_substring k (soup_get_text sp))
      \<longrightarrow> \<not> check_content_filters self sp u) \<and>
   (\<not> truthy (contains (options self)) \<and> \<not> truthy (not_contains (options self))
      \<longrightarrow> check_content_filters self sp u)"
  by (auto simp: check_content_filters_def accept_spec_def Let_def keyword_match)

theorem content_filter_accepts_witness:
  "check_content_filters filtered_converter tutorial_soup guide_url \<and>
   truthy (not_contains (options filtered_converter)) \<and>
   (\<exists>k \<in> set (configured_keywords (the (not_contains (options filtered_converter)))).
       ci_substring k (soup_get_text deprecated_soup)) \<and>
   (\<exists>k \<in> set (configured_keywords (the (contains (options filtered_converter)))).
       ci_substring k (soup_get_text deprecated_soup)) \<and>
   \<not> check_content_filters filtered_converter deprecated_soup guide_url \<and>
   \<not> truthy (contains (options (init guide_library guide_url default_options))) \<and>
   \<not> truthy (not_contains (options (init guide_library guide_url default_options))) \<and>
   check_content_filters (init guide_library guide_url default_options) deprecated_soup guide_url"
proof -
  have a: "accept_spec (contains (options filtered_converter))
             (not_contains (options filtered_converter)) (soup_get_text tutorial_soup)"
    by code_simp
  have b: "truthy (not_contains (options filtered_converter))"
    by (simp add: filtered_converter_def init_def default_options_def)
  have c: "\<exists>k \<in> set (configured_keywords (the (not_contains (options filtered_converter)))).
       ci_substring k (soup_get_text deprecated_soup)"
    by code_simp
  have d: "\<exists>k \<in> set (configured_keywords (the (contains (options filtered_converter)))).
       ci_substring k (soup_get_text deprecated_soup)"
    by code_simp
  have e: "\<not> truthy (contains (options (init guide_library guide_url default_options))) \<and>
   \<not> truthy (not_contains (options (init guide_library guide_url default_options)))"
    by (simp add: init_def default_options_def)
  from content_filter_accepts[of filtered_converter tutorial_soup guide_url]
       content_filter_accepts[of filtered_converter deprecated_soup guide_url]
       content_filter_accepts[of "init guide_library guide_url default_options" deprecated_soup guide_url]
       a b c d e
  show ?thesis by blast
qed

section \<open>Properties of the scope filter\<close>

text \<open>
  C6. A URL that names a host other than the seed's, or whose path does not start with
  the seed's directory (the seed's path up to its last slash, with a slash added), is not
  valid; and a URL whose path ends in one of the extensions of files that are not HTML is
  not valid, whatever its host and path.
\<close>

theorem out_of_scope_rejected:
  "(netloc (urlparse L u) \<noteq> [] \<and> netloc (urlparse L u) \<noteq> domain self
      \<longrightarrow> \<not> fst (is_valid_url L self u f)) \<and>
   (\<not> startswith (path (urlparse L u)) (base_path self) \<longrightarrow> \<not> fst (is_valid_url L self u f)) \<and>
   ((\<exists>e \<in> set non_html_extensions. endswith (path (urlparse L u)) e)
      \<longrightarrow> \<not> fst (is_valid_url L self u f)) \<and>
   domain (init L b opts) = netloc (urlparse L b) \<and>
   base_path (init L b opts) = rsplit1_head (CHR ''/'') (path (urlparse L b)) @ ''/''"
  by (auto simp: is_valid_url_def Let_def init_def list_ex_iff)

theorem out_of_scope_rejected_witness:
  "netloc (urlparse guide_library ''https://other.example.org/guide/x'') \<noteq> [] \<and>
   netloc (urlparse guide_library ''https://other.example.org/guide/x'')
     \<noteq> domain (init guide_library guide_url default_options) \<and>
   \<not> fst (is_valid_url guide_library (init guide_library guide_url default_options)
            ''https://other.example.org/guide/x'' (Some guide_url)) \<and>
   \<not> startswith (path (urlparse guide_library ''https://docs.example.com/api/x''))
       (base_path (init guide_library guide_url default_options)) \<and>
   \<not> fst (is_valid_url guide_library (init guide_library guide_url default_options)
            ''https://docs.example.com/api/x'' (Some guide_url)) \<and>
   (\<exists>e \<in> set non_html_extensions.
      endswith (path (urlparse guide_library ''https://docs.example.com/guide/logo.png'')) e) \<and>
   \<not> fst (is_valid_url guide_library (init guide_library guide_url default_options)
            ''https://docs.example.com/guide/logo.png'' (Some guide_url)) \<and>
   base_path (init guide_library ''https://docs.example.com/guide/intro.html'' default_options)
     = ''/guide/'' \<and>
   fst (is_valid_url guide_library (init guide_library guide_url default_options)
          setup_url (Some guide_url))"
proof -
  let ?s = "init guide_library guide_url default_options"
  have a: "netloc (urlparse guide_library ''https://other.example.org/guide/x'') \<noteq> [] \<and>
     netloc (urlparse guide_library ''https://other.example.org/guide/x'') \<noteq> domain ?s"
    by code_simp
  have b: "\<not> startswith (path (urlparse guide_library ''https://docs.example.com/api/x''))
       (base_path ?s)"
    by code_simp
  have c: "\<exists>e \<in> set non_html_extensions.
      endswith (path (urlparse guide_library ''https://docs.example.com/guide/logo.png'')) e"
    by code_simp
  have d: "rsplit1_head (CHR ''/'')
             (path (urlparse guide_library ''https://docs.example.com/guide/intro.html'')) @ ''/''
           = ''/guide/''"
    by code_simp
  have e: "fst (is_valid_url guide_library ?s setup_url (Some guide_url))"
    by code_simp
  from out_of_scope_rejected[of guide_library "''https://other.example.org/guide/x''" ?s
         "Some guide_url" "''https://docs.example.com/guide/intro.html''" default_options]
       out_of_scope_rejected[of guide_library "''https://docs.example.com/api/x''" ?s
         "Some guide_url"]
       out_of_scope_rejected[of guide_library "''https://docs.example.com/guide/logo.png''" ?s
         "Some guide_url"]
       a b c d e
  show ?thesis by simp
qed

text \<open>
  C4 does not hold of the code. \<open>is_valid_url\<close> writes the depth under the URL without
  its fragment, \<open>extract_links\<close> queues the URL with its fragment, and the depth of a parent
  is read under the URL as queued, 0 when there is none. With a maximal depth of 1, the
  link \<open>a#top\<close> of the start page is accepted and the depth 1 is written for \<open>a\<close>, none for
  \<open>a#top\<close>; page A is then visited as \<open>a#top\<close>, its depth is read as 0, and its link to
  page B, two links away from the start page, is accepted with the depth 1: the crawl
  visits all three pages and stores them. From the start page that links to \<open>a\<close> without
  a fragment the same crawl stops after page A, whose link to page B is rejected.
\<close>

theorem fragment_link_escapes_depth:
  "max_depth (options chain_converter) = Some 1 \<and>
   url_depth chain_converter chain_url = Some 0 \<and>
   fst (is_valid_url chain_library chain_converter chain_a_top_url (Some chain_url)) \<and>
   url_depth (snd (is_valid_url chain_library chain_converter chain_a_top_url (Some chain_url)))
     chain_a_top_url = None \<and>
   url_depth (snd (is_valid_url chain_library chain_converter chain_a_top_url (Some chain_url)))
     chain_a_url = Some 1 \<and>
   to_visit (loop_body chain_library chain_converter) = [chain_a_top_url] \<and>
   fst (is_valid_url chain_library (loop_body chain_library chain_converter) chain_b_url
          (Some chain_a_top_url)) \<and>
   visited_urls (crawl_loop chain_library chain_converter)
     = [chain_url, chain_a_top_url, chain_b_url] \<and>
   requests_log (crawl_loop chain_library chain_converter)
     = [chain_url, chain_a_top_url, chain_b_url] \<and>
   map fst (contents (crawl_loop chain_library chain_converter))
     = [chain_url, chain_a_top_url, chain_b_url] \<and>
   url_depth (crawl_loop chain_library chain_converter) chain_a_top_url = None \<and>
   url_depth (crawl_loop chain_library chain_converter) chain_b_url = Some 1 \<and>
   max_depth (options chain_index_converter) = Some 1 \<and>
   visited_urls (crawl_loop chain_library chain_index_converter)
     = [chain_index_url, chain_a_url] \<and>
   url_depth (crawl_loop chain_library chain_index_converter) chain_a_url = Some 1 \<and>
   url_depth (crawl_loop chain_library chain_index_converter) chain_b_url = None \<and>
   \<not> fst (is_valid_url chain_library (crawl_loop chain_library chain_index_converter)
            chain_b_url (Some chain_a_url))"
  by code_simp

section \<open>Properties of the category filter\<close>




section \<open>Properties of processing a page\<close>

lemma same_but_depth_contents: "same_but_depth s t \<Longrightarrow> contents t = contents s"
  unfolding same_but_depth_def by (cases s, cases t) simp

lemma same_but_counter_contents: "same_but_counter s t \<Longrightarrow> contents t = contents s"
  unfolding same_but_counter_def by (cases s, cases t) simp

lemma enqueue_links_contents: "contents (enqueue_links ls s) = contents s"
  using enqueue_links_fields[of ls s] by (cases s, cases "enqueue_links ls s") simp

lemma discover_links_contents: "contents (discover_links L s sp u) = contents s"
proof (cases "use_sitemap (options s)")
  case True
  then show ?thesis by (simp add: discover_links_def)
next
  case False
  obtain ls s1 where e: "extract_links L s sp u = (ls, s1)" by (cases "extract_links L s sp u")
  with extract_links_same[of s L sp u] have "contents s1 = contents s"
    by (simp add: same_but_depth_contents)
  with e False show ?thesis by (simp add: discover_links_def enqueue_links_contents)
qed

lemma extract_blocks_contents: "contents (snd (extract_blocks L s u eas)) = contents s"
  by (rule same_but_counter_contents) (rule extract_blocks_same)











lemma process_soup_contents:
  "contents (snd (process_soup L s u sp0)) = contents s \<or>
   (\<exists>e. contents (snd (process_soup L s u sp0)) = AList.update u e (contents s))"
proof -
  let ?sp = "strip_chrome sp0"
  have c1: "\<And>m. \<exists>e. contents (store_contents L s u ?sp m) = AList.update u e (contents s)"
    by (auto simp: store_contents_def)
  have c3: "\<And>m eas. contents (snd (extract_blocks L
               (discover_links L (store_contents L s u ?sp m) ?sp u) u eas))
             = contents (store_contents L s u ?sp m)"
    by (simp add: extract_blocks_contents discover_links_contents)
  from process_soup_state[of L s u sp0]
  consider "snd (process_soup L s u sp0) = s"
    | m where "snd (process_soup L s u sp0) = store_contents L s u ?sp m"
    | m where "snd (process_soup L s u sp0) =
         snd (extract_blocks L (discover_links L (store_contents L s u ?sp m) ?sp u)
               u (find_all block_tags m))"
    by blast
  then show ?thesis
  proof cases
    case 1
    then show ?thesis by simp
  next
    case (2 m)
    with c1[of m] show ?thesis by simp
  next
    case (3 m)
    with c3[of m "find_all block_tags m"] c1[of m] show ?thesis by simp
  qed
qed

lemma process_page_contents:
  "contents (snd (process_page L s u)) = contents s \<or>
   (\<exists>e. contents (snd (process_page L s u)) = AList.update u e (contents s))"
proof -
  obtain r s1 where e: "download_page L s u = (r, s1)" by (cases "download_page L s u")
  with download_page_state[of L s u] have s1: "contents s1 = contents s" by simp
  show ?thesis
  proof (cases "\<exists>h. r = Some h \<and> h \<noteq> []")
    case True
    then obtain h where h: "r = Some h" "h \<noteq> []" by blast
    with e have "process_page L s u = process_soup L s1 u (BeautifulSoup L h)"
      by (simp add: process_page_def)
    with process_soup_contents[of L s1 u "BeautifulSoup L h"] s1 show ?thesis by simp
  next
    case False
    with e s1 have "contents (snd (process_page L s u)) = contents s"
      by (cases r) (auto simp: process_page_def)
    then show ?thesis by simp
  qed
qed



















text \<open>
  C2 does not hold of the code. \<open>process_page\<close> removes the chrome from the tree and then
  extracts the links from that same tree. On the start page of the guide, whose only link
  stands in the \<open>nav\<close> bar, the page as parsed has the link, the page without chrome has
  no \<open>a\<close> tag left, the queue stays empty and the crawl ends after the start page; the
  discovery crawl of interactive mode, which extracts from the page as parsed, finds the
  second page.
\<close>

theorem nav_link_not_followed:
  "fst (extract_links guide_library guide_converter guide_soup guide_url) = [setup_url] \<and>
   a_tags (strip_chrome guide_soup) = [] \<and>
   to_visit (loop_body guide_library guide_converter) = [] \<and>
   visited_urls (crawl_loop guide_library guide_converter) = [guide_url] \<and>
   requests_log (crawl_loop guide_library guide_converter) = [guide_url] \<and>
   fst (discover guide_library ([], [guide_url], [], guide_converter)) = [guide_url, setup_url]"
  by code_simp

section \<open>The crawl under another budget or format\<close>

text \<open>
  No step of the crawl reads the format, and the budget is read by the loop condition
  only: changing them before a step or after it gives the same state.
\<close>

lemma retune_download_page:
  "download_page L (retune m f s) u =
     (fst (download_page L s u), retune m f (snd (download_page L s u)))"
  by (simp add: download_page_def retune_def Let_def split: option.splits)

lemma retune_is_valid_url:
  "is_valid_url L (retune m f s) u p =
     (fst (is_valid_url L s u p), retune m f (snd (is_valid_url L s u p)))"
  by (simp add: is_valid_url_def retune_def Let_def split: option.splits)

lemma retune_link_step:
  "link_step L cu a (ls, retune m f s) =
     (fst (link_step L cu a (ls, s)), retune m f (snd (link_step L cu a (ls, s))))"
proof -
  let ?h = "urljoin L cu (case node_get a ''href'' of None \<Rightarrow> [] | Some h \<Rightarrow> h)"
  obtain ok s1 where e: "is_valid_url L s ?h (Some cu) = (ok, s1)"
    by (cases "is_valid_url L s ?h (Some cu)")
  with retune_is_valid_url[of L m f s ?h "Some cu"]
  have "is_valid_url L (retune m f s) ?h (Some cu) = (ok, retune m f s1)" by simp
  moreover have "visited_urls (retune m f s1) = visited_urls s1" by (simp add: retune_def)
  ultimately show ?thesis using e by (simp add: link_step_def Let_def)
qed

lemma retune_fold_link_step:
  "fold (link_step L cu) xs (ls, retune m f s) =
     (fst (fold (link_step L cu) xs (ls, s)), retune m f (snd (fold (link_step L cu) xs (ls, s))))"
proof (induction xs arbitrary: ls s)
  case Nil
  show ?case by simp
next
  case (Cons a xs)
  obtain ls1 s1 where e: "link_step L cu a (ls, s) = (ls1, s1)" by (cases "link_step L cu a (ls, s)")
  with retune_link_step[of L cu a ls m f s]
  have "link_step L cu a (ls, retune m f s) = (ls1, retune m f s1)" by simp
  with e Cons.IH[of ls1 s1] show ?case by simp
qed

lemma retune_extract_links:
  "extract_links L (retune m f s) sp cu =
     (fst (extract_links L s sp cu), retune m f (snd (extract_links L s sp cu)))"
  by (simp add: extract_links_def retune_fold_link_step)

lemma retune_enqueue_link: "enqueue_link l (retune m f s) = retune m f (enqueue_link l s)"
  by (simp add: enqueue_link_def retune_def)

lemma retune_enqueue_links: "enqueue_links ls (retune m f s) = retune m f (enqueue_links ls s)"
  unfolding enqueue_links_def
  by (induction ls arbitrary: s) (simp_all add: retune_enqueue_link)

lemma retune_discover_links:
  "discover_links L (retune m f s) sp u = retune m f (discover_links L s sp u)"
proof -
  obtain ls s1 where e: "extract_links L s sp u = (ls, s1)" by (cases "extract_links L s sp u")
  with retune_extract_links[of L m f s sp u]
  have "extract_links L (retune m f s) sp u = (ls, retune m f s1)" by simp
  moreover have "use_sitemap (options (retune m f s)) = use_sitemap (options s)"
    by (simp add: retune_def)
  ultimately show ?thesis using e by (simp add: discover_links_def retune_enqueue_links)
qed

lemma retune_store_contents:
  "store_contents L (retune m f s) u sp mc = retune m f (store_contents L s u sp mc)"
  by (simp add: store_contents_def retune_def)

lemma retune_download_image:
  "download_image L (retune m f s) i b =
     (fst (download_image L s i b), retune m f (snd (download_image L s i b)))"
  by (simp add: download_image_def retune_def Let_def split: option.splits)

lemma retune_block_of:
  "block_of L (retune m f s) u ea =
     (fst (block_of L s u ea), retune m f (snd (block_of L s u ea)))"
proof -
  obtain r s1 where e: "download_image L s (the (node_get (fst ea) ''src'')) u = (r, s1)"
    by (cases "download_image L s (the (node_get (fst ea) ''src'')) u")
  with retune_download_image[of L m f s "the (node_get (fst ea) ''src'')" u]
  have "download_image L (retune m f s) (the (node_get (fst ea) ''src'')) u = (r, retune m f s1)"
    by simp
  with e show ?thesis by (simp add: block_of_def Let_def split: option.splits)
qed

lemma retune_extract_blocks:
  "extract_blocks L (retune m f s) u eas =
     (fst (extract_blocks L s u eas), retune m f (snd (extract_blocks L s u eas)))"
proof (induction eas arbitrary: s)
  case Nil
  show ?case by simp
next
  case (Cons ea eas)
  obtain r s1 where e: "block_of L s u ea = (r, s1)" by (cases "block_of L s u ea")
  with retune_block_of[of L m f s u ea]
  have e': "block_of L (retune m f s) u ea = (r, retune m f s1)" by simp
  obtain q s2 where g: "extract_blocks L s1 u eas = (q, s2)" by (cases "extract_blocks L s1 u eas")
  with Cons.IH[of s1] have "extract_blocks L (retune m f s1) u eas = (q, retune m f s2)" by simp
  with e e' g show ?case by (simp split: option.splits)
qed

lemma retune_check_content_filters:
  "check_content_filters (retune m f s) sp u = check_content_filters s sp u"
  by (simp add: check_content_filters_def retune_def)

lemma retune_category_check: "category_check (retune m f s) sp = category_check s sp"
  by (simp add: category_check_def retune_def split: option.splits)

lemma retune_process_soup:
  "process_soup L (retune m f s) u sp0 =
     (fst (process_soup L s u sp0), retune m f (snd (process_soup L s u sp0)))"
proof (cases "find_main_content (strip_chrome sp0)")
  case None
  then show ?thesis
    by (simp add: process_soup_def retune_check_content_filters retune_category_check)
next
  case (Some mc)
  let ?sp = "strip_chrome sp0"
  let ?s2 = "discover_links L (store_contents L s u ?sp mc) ?sp u"
  obtain r s3 where e: "extract_blocks L ?s2 u (find_all block_tags mc) = (r, s3)"
    by (cases "extract_blocks L ?s2 u (find_all block_tags mc)")
  with retune_extract_blocks[of L m f ?s2 u "find_all block_tags mc"]
  have "extract_blocks L (retune m f ?s2) u (find_all block_tags mc) = (r, retune m f s3)"
    by simp
  with Some e show ?thesis
    by (simp add: process_soup_def Let_def retune_check_content_filters retune_category_check
        retune_store_contents retune_discover_links split: option.splits)
qed

lemma retune_process_page:
  "process_page L (retune m f s) u =
     (fst (process_page L s u), retune m f (snd (process_page L s u)))"
proof -
  obtain r s1 where e: "download_page L s u = (r, s1)" by (cases "download_page L s u")
  with retune_download_page[of L m f s u]
  have "download_page L (retune m f s) u = (r, retune m f s1)" by simp
  with e show ?thesis
    by (simp add: process_page_def retune_process_soup split: option.splits)
qed

lemma retune_fields:
  "to_visit (retune m f s) = to_visit s"
  "visited_urls (retune m f s) = visited_urls s"
  "pdf_elements (retune m f s) = pdf_elements s"
  "contents (retune m f s) = contents s"
  "requests_log (retune m f s) = requests_log s"
  by (simp_all add: retune_def)

lemma retune_updates:
  "(retune m f s)\<lparr>to_visit := q\<rparr> = retune m f (s\<lparr>to_visit := q\<rparr>)"
  "(retune m f s)\<lparr>visited_urls := v\<rparr> = retune m f (s\<lparr>visited_urls := v\<rparr>)"
  "(retune m f s)\<lparr>pdf_elements := p\<rparr> = retune m f (s\<lparr>pdf_elements := p\<rparr>)"
  by (simp_all add: retune_def)

lemma retune_loop_body: "loop_body L (retune m f s) = retune m f (loop_body L s)"
proof -
  let ?s2 = "s\<lparr>to_visit := tl (to_visit s), visited_urls := visited_urls s @ [hd (to_visit s)]\<rparr>"
  obtain els s3 where e: "process_page L ?s2 (hd (to_visit s)) = (els, s3)"
    by (cases "process_page L ?s2 (hd (to_visit s))")
  from retune_process_page[of L m f ?s2 "hd (to_visit s)"] e
  have "process_page L (retune m f ?s2) (hd (to_visit s)) = (els, retune m f s3)" by simp
  with e show ?thesis
    by (simp add: loop_body_def Let_def retune_fields retune_updates)
qed

lemma with_budget_retune: "with_budget m s = retune m (format (options s)) s"
  by (simp add: with_budget_def retune_def)

lemma with_format_retune: "with_format f s = retune (max_pages (options s)) f s"
  by (simp add: with_format_def retune_def)

lemma loop_cond_retune:
  "loop_cond (retune m f s) = (to_visit s \<noteq> [] \<and> int (length (visited_urls s)) < m)"
  by (simp add: loop_cond_def retune_def)

section \<open>Properties of the page budget\<close>

lemma loop_body_length:
  "length (visited_urls s) \<le> length (visited_urls (loop_body L s)) \<and>
   length (visited_urls (loop_body L s)) \<le> length (visited_urls s) + 1"
  by (simp add: loop_body_visited)

lemma crawl_loop_length_mono:
  "length (visited_urls s) \<le> length (visited_urls (crawl_loop L s))"
proof (induction L s rule: crawl_loop.induct)
  case (1 L self)
  show ?case
  proof (cases "loop_cond self")
    case True
    from "1.IH"[OF True] loop_body_length[of self L] True show ?thesis
      by (simp add: crawl_loop.simps[of L self])
  next
    case False
    then show ?thesis by (simp add: crawl_loop.simps[of L self])
  qed
qed

lemma crawl_loop_length_upper:
  "int (length (visited_urls (crawl_loop L s)))
     \<le> max (int (length (visited_urls s))) (max_pages (options s))"
proof (induction L s rule: crawl_loop.induct)
  case (1 L self)
  show ?case
  proof (cases "loop_cond self")
    case True
    from "1.IH"[OF True] loop_body_length[of self L] True show ?thesis
      by (simp add: crawl_loop.simps[of L self] loop_body_options loop_cond_def)
  next
    case False
    then show ?thesis by (simp add: crawl_loop.simps[of L self])
  qed
qed

lemma crawl_loop_exit:
  "to_visit (crawl_loop L s) = [] \<or>
   max_pages (options s) \<le> int (length (visited_urls (crawl_loop L s)))"
proof (induction L s rule: crawl_loop.induct)
  case (1 L self)
  show ?case
  proof (cases "loop_cond self")
    case True
    from "1.IH"[OF True] True show ?thesis
      by (simp add: crawl_loop.simps[of L self] loop_body_options)
  next
    case False
    then show ?thesis by (auto simp: crawl_loop.simps[of L self] loop_cond_def)
  qed
qed

lemma crawl_loop_retune_length:
  "to_visit (crawl_loop L s) = [] \<Longrightarrow>
   length (visited_urls (crawl_loop L (retune m f s))) =
     max (length (visited_urls s)) (min (nat m) (length (visited_urls (crawl_loop L s))))"
proof (induction L s rule: crawl_loop.induct)
  case (1 L self)
  show ?case
  proof (cases "loop_cond self")
    case False
    with "1.prems" have e: "to_visit self = []" by (simp add: crawl_loop.simps[of L self])
    then have "\<not> loop_cond (retune m f self)" by (simp add: loop_cond_retune)
    then have "crawl_loop L (retune m f self) = retune m f self"
      by (simp add: crawl_loop.simps[of L "retune m f self"])
    with False show ?thesis by (simp add: crawl_loop.simps[of L self] retune_fields)
  next
    case True
    then have c: "crawl_loop L self = crawl_loop L (loop_body L self)"
      by (simp add: crawl_loop.simps[of L self])
    with "1.prems" have x: "to_visit (crawl_loop L (loop_body L self)) = []" by simp
    note ih = "1.IH"[OF True x]
    have mono: "length (visited_urls (loop_body L self))
                  \<le> length (visited_urls (crawl_loop L (loop_body L self)))"
      by (rule crawl_loop_length_mono)
    show ?thesis
    proof (cases "loop_cond (retune m f self)")
      case True
      then have "crawl_loop L (retune m f self) = crawl_loop L (retune m f (loop_body L self))"
        by (simp add: crawl_loop.simps[of L "retune m f self"] retune_loop_body)
      moreover from True have "int (length (visited_urls self)) < m"
        by (simp add: loop_cond_retune)
      ultimately show ?thesis
        using ih mono loop_body_length[of self L] c by (simp add: min_def max_def) linarith
    next
      case False
      then have "crawl_loop L (retune m f self) = retune m f self"
        by (simp add: crawl_loop.simps[of L "retune m f self"])
      moreover have "m \<le> int (length (visited_urls self))"
      proof -
        from False have "to_visit self = [] \<or> m \<le> int (length (visited_urls self))"
          by (auto simp: loop_cond_retune)
        moreover from \<open>loop_cond self\<close> have "to_visit self \<noteq> []" by (simp add: loop_cond_def)
        ultimately show ?thesis by simp
      qed
      ultimately show ?thesis by (simp add: retune_fields min_def max_def) linarith
    qed
  qed
qed

lemma update_length: "length (AList.update k v al) \<le> length al + 1"
  by (induction al) auto

lemma loop_body_contents_length:
  "length (contents (loop_body L s)) - length (contents s)
     \<le> length (visited_urls (loop_body L s)) - length (visited_urls s)"
proof (cases "hd (to_visit s) \<in> set (visited_urls s)")
  case True
  then show ?thesis by (simp add: loop_body_skip)
next
  case False
  let ?s2 = "s\<lparr>to_visit := tl (to_visit s), visited_urls := visited_urls s @ [hd (to_visit s)]\<rparr>"
  obtain els s3 where p: "process_page L ?s2 (hd (to_visit s)) = (els, s3)"
    by (cases "process_page L ?s2 (hd (to_visit s))")
  from process_page_contents[of L ?s2 "hd (to_visit s)"] p
  have "contents s3 = contents s \<or> (\<exists>e'. contents s3 = AList.update (hd (to_visit s)) e' (contents s))"
    by simp
  then have "length (contents s3) \<le> length (contents s) + 1"
    using update_length[of "hd (to_visit s)" _ "contents s"] by auto
  moreover from False p have "contents (loop_body L s) = contents s3"
    by (simp add: loop_body_def Let_def)
  ultimately show ?thesis using False by (simp add: loop_body_visited)
qed

lemma crawl_loop_records:
  "length (contents s) \<le> length (visited_urls s) \<Longrightarrow>
   length (contents (crawl_loop L s)) \<le> length (visited_urls (crawl_loop L s))"
proof (induction L s rule: crawl_loop.induct)
  case (1 L self)
  show ?case
  proof (cases "loop_cond self")
    case True
    have "length (contents (loop_body L self)) \<le> length (visited_urls (loop_body L self))"
      using loop_body_contents_length[of L self] loop_body_length[of self L] "1.prems" by linarith
    from "1.IH"[OF True this] True show ?thesis by (simp add: crawl_loop.simps[of L self])
  next
    case False
    with "1.prems" show ?thesis by (simp add: crawl_loop.simps[of L self])
  qed
qed

text \<open>
  C3, as stated, fails for a budget below zero: the manual has three pages to discover,
  with a budget of \<open>-1\<close> the crawl attempts none, and the minimum of \<open>-1\<close> and \<open>3\<close> is
  \<open>-1\<close>.
\<close>

theorem page_budget_counterexample:
  "visited_urls (crawl_loop manual_library manual_converter)
     = [manual_url, page_a_url, page_b_url] \<and>
   to_visit (crawl_loop manual_library manual_converter) = [] \<and>
   max_pages (options (with_budget (- 1) manual_converter)) = - 1 \<and>
   visited_urls (crawl_loop manual_library (with_budget (- 1) manual_converter)) = [] \<and>
   int (length (visited_urls (crawl_loop manual_library (with_budget (- 1) manual_converter))))
     \<noteq> min (max_pages (options (with_budget (- 1) manual_converter)))
           (int (length (visited_urls (crawl_loop manual_library manual_converter))))"
  by code_simp

text \<open>
  C3, amended. Take a crawl that starts with nothing visited and nothing stored. If it
  ends with an empty queue, the pages it attempted are all there is to discover, and under
  any budget \<open>m\<close> the same crawl attempts the smaller of \<open>m\<close>, taken as zero when negative,
  and that total. If it ends with URLs left in the queue, it attempted as many pages as
  its budget (zero when negative). The stored records are never more than the pages
  attempted, and every turn of the loop that takes an unvisited URL raises the number of
  attempted pages by one, whatever becomes of the page.
\<close>

theorem page_budget:
  assumes "visited_urls s = []" and "contents s = []"
  shows "(to_visit (crawl_loop L s) = [] \<longrightarrow>
            (\<forall>m. length (visited_urls (crawl_loop L (with_budget m s)))
                   = min (nat m) (length (visited_urls (crawl_loop L s))))) \<and>
         (to_visit (crawl_loop L s) \<noteq> [] \<longrightarrow>
            length (visited_urls (crawl_loop L s)) = nat (max_pages (options s))) \<and>
         length (contents (crawl_loop L s)) \<le> length (visited_urls (crawl_loop L s)) \<and>
         (\<forall>t. loop_cond t \<and> hd (to_visit t) \<notin> set (visited_urls t) \<longrightarrow>
            length (visited_urls (loop_body L t)) = length (visited_urls t) + 1)"
proof (intro conjI impI allI)
  fix m assume "to_visit (crawl_loop L s) = []"
  from crawl_loop_retune_length[OF this, of m "format (options s)"] assms(1)
  show "length (visited_urls (crawl_loop L (with_budget m s)))
          = min (nat m) (length (visited_urls (crawl_loop L s)))"
    by (simp add: with_budget_retune)
next
  assume "to_visit (crawl_loop L s) \<noteq> []"
  with crawl_loop_exit[of L s] crawl_loop_length_upper[of L s] assms(1)
  show "length (visited_urls (crawl_loop L s)) = nat (max_pages (options s))"
    by (simp add: max_def split: if_splits)
next
  from assms show "length (contents (crawl_loop L s)) \<le> length (visited_urls (crawl_loop L s))"
    by (intro crawl_loop_records) simp
next
  fix t assume "loop_cond t \<and> hd (to_visit t) \<notin> set (visited_urls t)"
  then show "length (visited_urls (loop_body L t)) = length (visited_urls t) + 1"
    by (simp add: loop_body_visited)
qed

theorem page_budget_witness:
  "visited_urls manual_converter = [] \<and> contents manual_converter = [] \<and>
   to_visit (crawl_loop manual_library manual_converter) = [] \<and>
   length (visited_urls (crawl_loop manual_library manual_converter)) = 3 \<and>
   length (visited_urls (crawl_loop manual_library (with_budget 2 manual_converter))) = 2 \<and>
   length (visited_urls (crawl_loop manual_library (with_budget 7 manual_converter))) = 3 \<and>
   length (visited_urls (crawl_loop manual_library (with_budget (- 1) manual_converter))) = 0 \<and>
   to_visit (crawl_loop manual_library (with_budget 2 manual_converter)) \<noteq> [] \<and>
   visited_urls (with_budget 2 manual_converter) = [] \<and>
   contents (with_budget 2 manual_converter) = [] \<and>
   length (contents (crawl_loop manual_library manual_converter)) \<le> 3 \<and>
   loop_cond strict_converter \<and>
   hd (to_visit strict_converter) \<notin> set (visited_urls strict_converter) \<and>
   \<not> check_content_filters strict_converter guide_soup guide_url \<and>
   contents (loop_body guide_library strict_converter) = [] \<and>
   length (visited_urls (loop_body guide_library strict_converter)) = 1"
proof -
  have a: "visited_urls manual_converter = []" "contents manual_converter = []"
    by code_simp+
  have a2: "visited_urls (with_budget 2 manual_converter) = []"
    "contents (with_budget 2 manual_converter) = []"
    by code_simp+
  have b: "to_visit (crawl_loop manual_library manual_converter) = []" by code_simp
  have b2: "to_visit (crawl_loop manual_library (with_budget 2 manual_converter)) \<noteq> []"
    by code_simp
  have c: "length (visited_urls (crawl_loop manual_library manual_converter)) = 3" by code_simp
  have d: "loop_cond strict_converter"
    "hd (to_visit strict_converter) \<notin> set (visited_urls strict_converter)"
    "\<not> check_content_filters strict_converter guide_soup guide_url"
    "contents (loop_body guide_library strict_converter) = []"
    "visited_urls strict_converter = []"
    by code_simp+
  note p = page_budget[OF a, of manual_library]
  from p b have m: "\<And>m. length (visited_urls (crawl_loop manual_library (with_budget m manual_converter)))
                  = min (nat m) (length (visited_urls (crawl_loop manual_library manual_converter)))"
    by blast
  from p have r: "length (contents (crawl_loop manual_library manual_converter))
                    \<le> length (visited_urls (crawl_loop manual_library manual_converter))"
    by blast
  from p d(1,2) have s: "length (visited_urls (loop_body manual_library strict_converter))
                    = length (visited_urls strict_converter) + 1"
    by blast
  from page_budget[OF a(1) a(2), of guide_library] d(1,2)
  have s': "length (visited_urls (loop_body guide_library strict_converter))
                    = length (visited_urls strict_converter) + 1"
    by blast
  from page_budget[OF a2, of manual_library] b2
  have q: "length (visited_urls (crawl_loop manual_library (with_budget 2 manual_converter)))
             = nat (max_pages (options (with_budget 2 manual_converter)))"
    by blast
  from a a2 b b2 c d m[of 2] m[of 7] m[of "- 1"] r s' show ?thesis by simp
qed

section \<open>Properties of the queue and the visited set\<close>

lemma fresh_tail_refl: "fresh_tail s s"
  by (simp add: fresh_tail_def)

lemma fresh_tail_same:
  "visited_urls t = visited_urls s \<Longrightarrow> to_visit t = to_visit s \<Longrightarrow> fresh_tail s t"
  by (simp add: fresh_tail_def)

lemma fresh_tail_trans:
  assumes "fresh_tail s t" and "fresh_tail t r"
  shows "fresh_tail s r"
proof -
  from assms(1) obtain n1 where 1: "visited_urls t = visited_urls s" "to_visit t = to_visit s @ n1"
    "distinct n1" "set n1 \<inter> (set (visited_urls s) \<union> set (to_visit s)) = {}"
    by (auto simp: fresh_tail_def)
  from assms(2) obtain n2 where 2: "visited_urls r = visited_urls t" "to_visit r = to_visit t @ n2"
    "distinct n2" "set n2 \<inter> (set (visited_urls t) \<union> set (to_visit t)) = {}"
    by (auto simp: fresh_tail_def)
  from 1 2 have "to_visit r = to_visit s @ (n1 @ n2)" "distinct (n1 @ n2)"
    "set (n1 @ n2) \<inter> (set (visited_urls s) \<union> set (to_visit s)) = {}"
    by auto
  with 1(1) 2(1) show ?thesis unfolding fresh_tail_def by metis
qed

lemma enqueue_link_fresh: "fresh_tail s (enqueue_link l s)"
  by (simp add: fresh_tail_def enqueue_link_def)

lemma enqueue_links_fresh: "fresh_tail s (enqueue_links ls s)"
  unfolding enqueue_links_def
proof (induction ls arbitrary: s)
  case Nil
  show ?case by (simp add: fresh_tail_refl)
next
  case (Cons l ls)
  from fresh_tail_trans[OF enqueue_link_fresh[of s l] Cons.IH[of "enqueue_link l s"]]
  show ?case by simp
qed

lemma same_but_depth_fresh: "same_but_depth s t \<Longrightarrow> fresh_tail s t"
  unfolding same_but_depth_def by (cases s, cases t) (simp add: fresh_tail_def)

lemma same_but_counter_fresh: "same_but_counter s t \<Longrightarrow> fresh_tail s t"
  unfolding same_but_counter_def by (cases s, cases t) (simp add: fresh_tail_def)

lemma discover_links_fresh: "fresh_tail s (discover_links L s sp u)"
proof (cases "use_sitemap (options s)")
  case True
  then show ?thesis by (simp add: discover_links_def fresh_tail_refl)
next
  case False
  obtain ls s1 where e: "extract_links L s sp u = (ls, s1)" by (cases "extract_links L s sp u")
  with extract_links_same[of s L sp u] have "fresh_tail s s1" by (simp add: same_but_depth_fresh)
  from fresh_tail_trans[OF this enqueue_links_fresh[of s1 ls]] e False
  show ?thesis by (simp add: discover_links_def)
qed

lemma process_soup_fresh: "fresh_tail s (snd (process_soup L s u sp0))"
proof -
  let ?sp = "strip_chrome sp0"
  have c1: "\<And>m. fresh_tail s (store_contents L s u ?sp m)"
    by (simp add: store_contents_def fresh_tail_def)
  have c2: "\<And>m. fresh_tail s (discover_links L (store_contents L s u ?sp m) ?sp u)"
    by (rule fresh_tail_trans[OF c1 discover_links_fresh])
  have c3: "\<And>m eas. fresh_tail s (snd (extract_blocks L
               (discover_links L (store_contents L s u ?sp m) ?sp u) u eas))"
    by (rule fresh_tail_trans[OF c2 same_but_counter_fresh[OF extract_blocks_same]])
  from process_soup_state[of L s u sp0] show ?thesis
    by (auto simp: fresh_tail_refl c1 c3)
qed

lemma process_page_fresh: "fresh_tail s (snd (process_page L s u))"
proof -
  obtain r s1 where e: "download_page L s u = (r, s1)" by (cases "download_page L s u")
  with download_page_state[of L s u] have s1: "fresh_tail s s1" by (simp add: fresh_tail_def)
  from fresh_tail_trans[OF s1 process_soup_fresh] e s1 show ?thesis
    by (auto simp: process_page_def split: option.splits)
qed

lemma loop_body_to_visit:
  "\<exists>new. to_visit (loop_body L s) = tl (to_visit s) @ new \<and> distinct new \<and>
     set new \<inter> (set (visited_urls (loop_body L s)) \<union> set (tl (to_visit s))) = {}"
proof (cases "hd (to_visit s) \<in> set (visited_urls s)")
  case True
  then show ?thesis by (simp add: loop_body_skip)
next
  case False
  let ?s2 = "s\<lparr>to_visit := tl (to_visit s), visited_urls := visited_urls s @ [hd (to_visit s)]\<rparr>"
  obtain els s3 where p: "process_page L ?s2 (hd (to_visit s)) = (els, s3)"
    by (cases "process_page L ?s2 (hd (to_visit s))")
  with process_page_fresh[of ?s2 L "hd (to_visit s)"] have "fresh_tail ?s2 s3" by simp
  then obtain new where n: "to_visit s3 = tl (to_visit s) @ new" "distinct new"
    "set new \<inter> (set (visited_urls s @ [hd (to_visit s)]) \<union> set (tl (to_visit s))) = {}"
    by (auto simp: fresh_tail_def)
  from False p have "to_visit (loop_body L s) = to_visit s3"
    by (simp add: loop_body_def Let_def)
  with n False show ?thesis by (simp add: loop_body_visited)
qed

lemma crawl_reaches_trans:
  "crawl_reaches L s1 s2 \<Longrightarrow> crawl_reaches L s0 s1 \<Longrightarrow> crawl_reaches L s0 s2"
  by (induction rule: crawl_reaches.induct) (auto intro: crawl_reaches.intros)

lemma crawl_reaches_final: "crawl_reaches L s (crawl_loop L s)"
proof (induction L s rule: crawl_loop.induct)
  case (1 L self)
  show ?case
  proof (cases "loop_cond self")
    case True
    have "crawl_reaches L self (loop_body L self)"
      by (rule crawl_reaches.turn[OF crawl_reaches.start True])
    from crawl_reaches_trans[OF "1.IH"[OF True] this] True show ?thesis
      by (simp add: crawl_loop.simps[of L self])
  next
    case False
    then show ?thesis by (simp add: crawl_loop.simps[of L self] crawl_reaches.start)
  qed
qed

lemma loop_body_distinct_visited:
  "distinct (visited_urls s) \<Longrightarrow> distinct (visited_urls (loop_body L s))"
  by (simp add: loop_body_visited)

lemma loop_body_queue_inv:
  assumes "to_visit s \<noteq> []" and "distinct (to_visit s)"
    and "set (to_visit s) \<inter> set (visited_urls s) = {}"
  shows "distinct (to_visit (loop_body L s)) \<and>
         set (to_visit (loop_body L s)) \<inter> set (visited_urls (loop_body L s)) = {}"
proof -
  from assms(1) obtain c q where q: "to_visit s = c # q" by (cases "to_visit s") auto
  with assms have c: "c \<notin> set (visited_urls s)" "c \<notin> set q" "distinct q"
    "set q \<inter> set (visited_urls s) = {}" by auto
  from loop_body_to_visit[of L s] q obtain new where
    n: "to_visit (loop_body L s) = q @ new" "distinct new"
       "set new \<inter> (set (visited_urls (loop_body L s)) \<union> set q) = {}" by auto
  from c(1) q have v: "visited_urls (loop_body L s) = visited_urls s @ [c]"
    by (simp add: loop_body_visited)
  from n c v show ?thesis by auto
qed

lemma crawl_reaches_inv:
  assumes "crawl_reaches L s0 s" and "distinct (visited_urls s0)"
  shows "distinct (visited_urls s) \<and>
         (distinct (to_visit s0) \<and> set (to_visit s0) \<inter> set (visited_urls s0) = {} \<longrightarrow>
            distinct (to_visit s) \<and> set (to_visit s) \<inter> set (visited_urls s) = {})"
  using assms
proof (induction rule: crawl_reaches.induct)
  case start
  then show ?case by simp
next
  case (turn s)
  then have "to_visit s \<noteq> []" by (simp add: loop_cond_def)
  with turn loop_body_queue_inv[of s L] loop_body_distinct_visited[of s L] show ?case by blast
qed

text \<open>
  C5, as stated, fails in sitemap mode: the queue is what the sitemap lists, and a sitemap
  that lists a URL twice gives a queue with two pending entries for it. (The loop then
  visits the URL once and drops the second entry.)
\<close>

theorem frontier_duplicates_counterexample:
  "use_sitemap (options sitemap_converter) \<and>
   map_sum id to_visit (seed sitemap_library sitemap_converter) = Inr [setup_url, setup_url] \<and>
   \<not> distinct [setup_url, setup_url] \<and>
   map_sum id (\<lambda>r. visited_urls (snd (snd r))) (run sitemap_library sitemap_converter)
     = Inr [setup_url]"
  by code_simp

text \<open>
  C5, amended. In every state the main loop comes to, from a start with nothing visited:
  no URL is in the visited set twice; what a turn of the loop appends to the queue are
  URLs different from one another, none of them visited, none of them pending; and when
  the queue at the start holds no URL twice, as the queue of link discovery (the seed URL
  alone) does, the queue never holds a URL twice and never holds a visited URL. The state
  the loop ends in is one of these states.
\<close>

theorem frontier_invariant:
  assumes "crawl_reaches L s0 s" and "visited_urls s0 = []"
  shows "distinct (visited_urls s) \<and>
         (\<exists>new. to_visit (loop_body L s) = tl (to_visit s) @ new \<and> distinct new \<and>
            set new \<inter> (set (visited_urls (loop_body L s)) \<union> set (tl (to_visit s))) = {}) \<and>
         (distinct (to_visit s0) \<longrightarrow>
            distinct (to_visit s) \<and> set (to_visit s) \<inter> set (visited_urls s) = {}) \<and>
         crawl_reaches L s0 (crawl_loop L s0) \<and>
         to_visit (init L b opts) = [b] \<and> visited_urls (init L b opts) = [] \<and>
         (\<not> use_sitemap opts \<and> \<not> interactive opts \<longrightarrow>
            seed L (init L b opts) = Inr (init L b opts))"
proof -
  from crawl_reaches_inv[OF assms(1)] assms(2)
  have a: "distinct (visited_urls s)"
    and b: "distinct (to_visit s0) \<longrightarrow>
            distinct (to_visit s) \<and> set (to_visit s) \<inter> set (visited_urls s) = {}"
    by simp_all
  have c: "seed L (init L b opts) = Inr (init L b opts)"
    if "\<not> use_sitemap opts \<and> \<not> interactive opts"
    using that by (simp add: seed_def init_def)
  from a b c loop_body_to_visit[of L s] crawl_reaches_final[of L s0] show ?thesis
    by (simp add: init_def)
qed

theorem frontier_invariant_witness:
  "crawl_reaches manual_library manual_converter (loop_body manual_library manual_converter) \<and>
   visited_urls manual_converter = [] \<and> distinct (to_visit manual_converter) \<and>
   \<not> use_sitemap default_options \<and> \<not> interactive default_options \<and>
   to_visit (loop_body manual_library manual_converter) = [page_a_url, page_b_url] \<and>
   visited_urls (loop_body manual_library manual_converter) = [manual_url] \<and>
   to_visit (loop_body manual_library (loop_body manual_library manual_converter)) = [page_b_url] \<and>
   distinct (visited_urls (loop_body manual_library manual_converter)) \<and>
   distinct (to_visit (loop_body manual_library manual_converter)) \<and>
   set (to_visit (loop_body manual_library manual_converter))
     \<inter> set (visited_urls (loop_body manual_library manual_converter)) = {} \<and>
   seed manual_library manual_converter = Inr manual_converter"
proof -
  have c: "loop_cond manual_converter" by code_simp
  have r: "crawl_reaches manual_library manual_converter (loop_body manual_library manual_converter)"
    by (rule crawl_reaches.turn[OF crawl_reaches.start c])
  have v: "visited_urls manual_converter = []" by code_simp
  have d: "distinct (to_visit manual_converter)" by code_simp
  have o: "\<not> use_sitemap default_options" "\<not> interactive default_options" by code_simp+
  have e: "to_visit (loop_body manual_library manual_converter) = [page_a_url, page_b_url]"
    "visited_urls (loop_body manual_library manual_converter) = [manual_url]"
    "to_visit (loop_body manual_library (loop_body manual_library manual_converter)) = [page_b_url]"
    by code_simp+
  from frontier_invariant[OF r v, of manual_url default_options] r v d o e
  show ?thesis by (simp add: manual_converter_def)
qed

section \<open>Properties of the run\<close>

lemma same_but_depth_log: "same_but_depth s t \<Longrightarrow> requests_log t = requests_log s"
  unfolding same_but_depth_def by (cases s, cases t) simp

lemma same_but_counter_log: "same_but_counter s t \<Longrightarrow> requests_log t = requests_log s"
  unfolding same_but_counter_def by (cases s, cases t) simp

lemma enqueue_links_log: "requests_log (enqueue_links ls s) = requests_log s"
  using enqueue_links_fields[of ls s] by (cases s, cases "enqueue_links ls s") simp

lemma discover_links_log: "requests_log (discover_links L s sp u) = requests_log s"
proof (cases "use_sitemap (options s)")
  case True
  then show ?thesis by (simp add: discover_links_def)
next
  case False
  obtain ls s1 where e: "extract_links L s sp u = (ls, s1)" by (cases "extract_links L s sp u")
  with extract_links_same[of s L sp u] have "requests_log s1 = requests_log s"
    by (simp add: same_but_depth_log)
  with e False show ?thesis by (simp add: discover_links_def enqueue_links_log)
qed

lemma process_soup_log: "requests_log (snd (process_soup L s u sp0)) = requests_log s"
proof -
  let ?sp = "strip_chrome sp0"
  have c1: "\<And>m. requests_log (store_contents L s u ?sp m) = requests_log s"
    by (simp add: store_contents_def)
  have c3: "\<And>m eas. requests_log (snd (extract_blocks L
               (discover_links L (store_contents L s u ?sp m) ?sp u) u eas)) = requests_log s"
    by (simp add: same_but_counter_log[OF extract_blocks_same] discover_links_log c1)
  from process_soup_state[of L s u sp0] show ?thesis
    by (auto simp: c1 c3)
qed

lemma process_page_log: "requests_log (snd (process_page L s u)) = requests_log s @ [u]"
proof -
  obtain r s1 where e: "download_page L s u = (r, s1)" by (cases "download_page L s u")
  with download_page_state[of L s u] have s1: "requests_log s1 = requests_log s @ [u]" by simp
  with e process_soup_log[of L s1 u] show ?thesis
    by (auto simp: process_page_def split: option.splits)
qed

lemma loop_body_log:
  "requests_log (loop_body L s) =
     (if hd (to_visit s) \<in> set (visited_urls s) then requests_log s
      else requests_log s @ [hd (to_visit s)])"
proof (cases "hd (to_visit s) \<in> set (visited_urls s)")
  case True
  then show ?thesis by (simp add: loop_body_skip)
next
  case False
  let ?s2 = "s\<lparr>to_visit := tl (to_visit s), visited_urls := visited_urls s @ [hd (to_visit s)]\<rparr>"
  obtain els s3 where p: "process_page L ?s2 (hd (to_visit s)) = (els, s3)"
    by (cases "process_page L ?s2 (hd (to_visit s))")
  with process_page_log[of L ?s2 "hd (to_visit s)"]
  have "requests_log s3 = requests_log s @ [hd (to_visit s)]" by simp
  with False p show ?thesis by (simp add: loop_body_def Let_def)
qed

lemma crawl_loop_log_prefix: "prefix (requests_log s) (requests_log (crawl_loop L s))"
proof (induction L s rule: crawl_loop.induct)
  case (1 L self)
  show ?case
  proof (cases "loop_cond self")
    case True
    have "prefix (requests_log self) (requests_log (loop_body L self))"
      by (simp add: loop_body_log)
    from prefix_order.trans[OF this "1.IH"[OF True]] True show ?thesis
      by (simp add: crawl_loop.simps[of L self])
  next
    case False
    then show ?thesis by (simp add: crawl_loop.simps[of L self])
  qed
qed

lemma crawl_loop_with_format: "crawl_loop L (with_format f s) = with_format f (crawl_loop L s)"
proof (induction L s rule: crawl_loop.induct)
  case (1 L self)
  have c: "loop_cond (with_format f self) = loop_cond self"
    by (simp add: loop_cond_def with_format_def)
  show ?case
  proof (cases "loop_cond self")
    case True
    have "loop_body L (with_format f self) = with_format f (loop_body L self)"
      by (simp add: with_format_retune retune_loop_body loop_body_options)
    with "1.IH"[OF True] True c show ?thesis
      by (simp add: crawl_loop.simps[of L self] crawl_loop.simps[of L "with_format f self"])
  next
    case False
    with c show ?thesis
      by (simp add: crawl_loop.simps[of L self] crawl_loop.simps[of L "with_format f self"])
  qed
qed

lemma render_unsupported:
  "lower (format (options s)) \<notin> set supported_formats \<Longrightarrow> render L s = (False, NoFile, s)"
  by (simp add: render_def supported_formats_def Let_def)

lemma crawl_loop_options: "options (crawl_loop L s) = options s"
proof (induction L s rule: crawl_loop.induct)
  case (1 L self)
  then show ?case
    by (cases "loop_cond self") (simp_all add: crawl_loop.simps[of L self] loop_body_options)
qed

lemma discover_body_options:
  "options (snd (snd (snd (discover_body L (tv, q, d, s))))) = options s"
proof (cases "hd q \<in> set tv")
  case True
  then show ?thesis by (simp add: discover_body_def Let_def)
next
  case False
  obtain r s1 where e: "download_page L s (hd q) = (r, s1)" by (cases "download_page L s (hd q)")
  with download_page_state[of L s "hd q"] have o1: "options s1 = options s" by simp
  show ?thesis
  proof (cases "\<exists>h. r = Some h \<and> h \<noteq> []")
    case True
    then obtain h where h: "r = Some h" "h \<noteq> []" by blast
    obtain ls s2 where f: "extract_links L s1 (BeautifulSoup L h) (hd q) = (ls, s2)"
      by (cases "extract_links L s1 (BeautifulSoup L h) (hd q)")
    with extract_links_same[of s1 L "BeautifulSoup L h" "hd q"] have "frame s1 s2"
      by (simp add: same_but_depth_frame)
    then have "options s2 = options s1" by (simp add: frame_def)
    with False e h f o1 show ?thesis by (simp add: discover_body_def Let_def)
  next
    case False
    with \<open>hd q \<notin> set tv\<close> e o1 show ?thesis
      by (cases r) (auto simp: discover_body_def Let_def)
  qed
qed

lemma discover_options: "options (snd (discover L st)) = options (snd (snd (snd st)))"
proof (induction L st rule: discover.induct)
  case (1 L st)
  obtain tv q d s where st: "st = (tv, q, d, s)" by (cases st)
  show ?case
  proof (cases "discover_cond st")
    case True
    have "discover L st = discover L (discover_body L st)"
      using True by (simp add: discover.simps[of L st])
    with "1.IH"[OF True] discover_body_options[of L tv q d s] show ?thesis
      by (simp add: st)
  next
    case False
    then have "discover L (tv, q, d, s) = (d, s)"
      unfolding st by (subst discover.simps) simp
    then show ?thesis by (simp add: st)
  qed
qed

lemma interactive_mode_options:
  "interactive_mode L s = Inr (sel, t) \<Longrightarrow> options t = options s"
proof -
  assume a: "interactive_mode L s = Inr (sel, t)"
  show ?thesis
  proof (cases "use_sitemap (options s)")
    case True
    with a show ?thesis by (auto simp: interactive_mode_def split: sum.splits)
  next
    case False
    obtain urls s1 where d: "discover L ([], [base_url s], [], s) = (urls, s1)"
      by (cases "discover L ([], [base_url s], [], s)")
    with discover_options[of L "([], [base_url s], [], s)"] have "options s1 = options s" by simp
    with a False d show ?thesis by (auto simp: interactive_mode_def split: sum.splits)
  qed
qed

lemma seed_options: "seed L s = Inr t \<Longrightarrow> options t = options s"
proof -
  assume a: "seed L s = Inr t"
  let ?s1 = "if use_sitemap (options s)
             then s\<lparr>to_visit := parse_sitemap (recursion_limit L) L s (sitemap_url (options s))\<rparr>
             else s"
  have o1: "options ?s1 = options s" by simp
  show ?thesis
  proof (cases "interactive (options s)")
    case False
    with a show ?thesis by (auto simp: seed_def Let_def split: if_splits)
  next
    case True
    with a obtain sel s2 where i: "interactive_mode L ?s1 = Inr (sel, s2)"
      and t: "t = s2\<lparr>to_visit := sel\<rparr>"
      by (auto simp: seed_def Let_def split: sum.splits if_splits)
    from interactive_mode_options[OF i] o1 t show ?thesis by simp
  qed
qed

text \<open>
  C1, as stated, fails: \<open>run\<close> reads the format after the main loop. Asked for \<open>pptx\<close>,
  the converter of the manual requests the start page and the two pages it links to, and
  then returns \<open>False\<close>.
\<close>

theorem unsupported_format_counterexample:
  "lower (format (options pptx_converter)) \<notin> set supported_formats \<and>
   map_sum id (\<lambda>r. (fst r, fst (snd r), requests_log (snd (snd r))))
     (run manual_library pptx_converter)
     = Inr (False, NoFile, [manual_url, page_a_url, page_b_url])"
  by code_simp

text \<open>
  C1, amended. With a format that is not supported the run fails, and writes no file,
  after the seeding and the main loop: its result is \<open>False\<close> with the state the crawl
  ends in. The crawl is the one of any other format (changing the format before the loop or
  after it gives the same state), and a crawl that starts from the seed URL alone with a
  budget of at least one page requests the seed page first. From the command line such a
  format does not reach the converter: the argument parser leaves with exit code 2.
\<close>

theorem unsupported_format_fails_after_crawl:
  assumes "lower (format (options s)) \<notin> set supported_formats"
  shows "run L s = map_sum id (\<lambda>t. (False, NoFile, crawl_loop L t)) (seed L s) \<and>
         (\<forall>f t. crawl_loop L (with_format f t) = with_format f (crawl_loop L t)) \<and>
         (\<not> use_sitemap (options s) \<and> \<not> interactive (options s) \<longrightarrow>
            run L s = Inr (False, NoFile, crawl_loop L s)) \<and>
         (to_visit s = [b] \<and> visited_urls s = [] \<and> requests_log s = [] \<and>
          1 \<le> max_pages (options s) \<longrightarrow>
            (\<exists>rest. requests_log (crawl_loop L s) = b # rest)) \<and>
         (\<forall>a. arg_format a \<notin> set format_choices \<longrightarrow> main L a = Inl 2)"
proof (intro conjI allI impI)
  show "run L s = map_sum id (\<lambda>t. (False, NoFile, crawl_loop L t)) (seed L s)"
  proof (cases "seed L s")
    case (Inl code)
    then show ?thesis by (simp add: run_def)
  next
    case (Inr t)
    from seed_options[OF Inr] assms
    have "lower (format (options (crawl_loop L t))) \<notin> set supported_formats"
      by (simp add: crawl_loop_options)
    from render_unsupported[OF this] Inr show ?thesis by (simp add: run_def)
  qed
next
  fix f t show "crawl_loop L (with_format f t) = with_format f (crawl_loop L t)"
    by (rule crawl_loop_with_format)
next
  assume a: "\<not> use_sitemap (options s) \<and> \<not> interactive (options s)"
  then have sd: "seed L s = Inr s" by (simp add: seed_def)
  from assms have "lower (format (options (crawl_loop L s))) \<notin> set supported_formats"
    by (simp add: crawl_loop_options)
  from render_unsupported[OF this] sd show "run L s = Inr (False, NoFile, crawl_loop L s)"
    by (simp add: run_def)
next
  assume a: "to_visit s = [b] \<and> visited_urls s = [] \<and> requests_log s = [] \<and>
          1 \<le> max_pages (options s)"
  then have c: "loop_cond s" by (simp add: loop_cond_def)
  from a have l: "requests_log (loop_body L s) = [b]" by (simp add: loop_body_log)
  from c have "crawl_loop L s = crawl_loop L (loop_body L s)" by (simp add: crawl_loop.simps[of L s])
  with crawl_loop_log_prefix[of "loop_body L s" L] l
  have "prefix [b] (requests_log (crawl_loop L s))" by simp
  then show "\<exists>rest. requests_log (crawl_loop L s) = b # rest"
    by (auto simp: prefix_def)
next
  fix a :: cli_args assume "arg_format a \<notin> set format_choices"
  then show "main L a = Inl 2" by (simp add: main_def)
qed

theorem unsupported_format_fails_after_crawl_witness:
  "lower (format (options pptx_converter)) \<notin> set supported_formats \<and>
   \<not> use_sitemap (options pptx_converter) \<and> \<not> interactive (options pptx_converter) \<and>
   to_visit pptx_converter = [manual_url] \<and> visited_urls pptx_converter = [] \<and>
   requests_log pptx_converter = [] \<and> 1 \<le> max_pages (options pptx_converter) \<and>
   run manual_library pptx_converter
     = Inr (False, NoFile, crawl_loop manual_library pptx_converter) \<and>
   (\<exists>rest. requests_log (crawl_loop manual_library pptx_converter) = manual_url # rest) \<and>
   arg_format pptx_args \<notin> set format_choices \<and> main manual_library pptx_args = Inl 2"
proof -
  have c: "arg_format pptx_args \<notin> set format_choices" by code_simp
  have a: "lower (format (options pptx_converter)) \<notin> set supported_formats" by code_simp
  have b: "\<not> use_sitemap (options pptx_converter)" "\<not> interactive (options pptx_converter)"
    "to_visit pptx_converter = [manual_url]" "visited_urls pptx_converter = []"
    "requests_log pptx_converter = []" "1 \<le> max_pages (options pptx_converter)"
    by code_simp+
  from unsupported_format_fails_after_crawl[OF a, of manual_library manual_url] a b c
  show ?thesis by blast
qed

end
